theory Spec2Isabelle
  imports Main "HOL-Library.AList" "HOL-Library.FSet"
begin

section \<open>Data model (types/index.ts)\<close>

text \<open>
  Identifiers are strings, seat numbers and counts are integers (the routes parse and
  validate them as integers), and every timestamp is the number of milliseconds since the
  epoch that the source formats with \<^verbatim>\<open>toISOString\<close> and reads back with
  \<^verbatim>\<open>new Date\<close>. A stored JSON document is modelled by the record it serialises.
\<close>

type_synonym EventId = string
type_synonym UserId = string
type_synonym SeatNumber = int
type_synonym Timestamp = int

datatype EventStatus = Active | Inactive | Cancelled

datatype SeatStatus = Available | Held | Reserved

record Event =
  idE :: EventId
  name :: string
  description :: string
  totalSeats :: int
  createdAt :: Timestamp
  statusE :: EventStatus

record Seat =
  eventId :: EventId
  seatNumber :: SeatNumber
  status :: SeatStatus
  userId :: "UserId option"
  heldAt :: "Timestamp option"
  reservedAt :: "Timestamp option"

record SeatHold =
  h_eventId :: EventId
  h_seatNumber :: SeatNumber
  h_userId :: UserId
  h_heldAt :: Timestamp
  expiresAt :: Timestamp

record SeatReservation =
  r_eventId :: EventId
  r_seatNumber :: SeatNumber
  r_userId :: UserId
  r_reservedAt :: Timestamp

text \<open>One constructor for each message a service method throws.\<close>

datatype error =
    TotalSeatsOutOfRange      \<comment> \<open>Total seats must be between 10 and 1000\<close>
  | EventAlreadyExists        \<comment> \<open>Event already exists\<close>
  | EventNotFound             \<comment> \<open>Event not found\<close>
  | InvalidSeatNumber         \<comment> \<open>Invalid seat number\<close>
  | SeatNotFound              \<comment> \<open>Seat not found\<close>
  | SeatNotAvailable          \<comment> \<open>Seat is not available\<close>
  | MaxHoldsReached           \<comment> \<open>User can hold maximum N seats\<close>
  | SeatNotHeld               \<comment> \<open>Seat is not held\<close>
  | SeatHeldByAnotherUser     \<comment> \<open>Seat is held by another user\<close>
  | SeatHoldExpired           \<comment> \<open>Seat hold has expired\<close>
  | SeatBeingProcessed        \<comment> \<open>Seat is currently being processed by another user\<close>
  | RedisInvalidExpire        \<comment> \<open>the reply of Redis to SETEX with a non-positive time\<close>
  | PgConstraintViolation     \<comment> \<open>the error of PostgreSQL for a unique or foreign key violation\<close>

section \<open>The Redis store of SeatService (redisService.ts)\<close>

text \<open>
  The keys built by \<^verbatim>\<open>RedisKeys\<close> are modelled by their components: the routes only
  pass UUIDs, which contain no colon, so the formatted keys of different components are
  different. A missing hash or set reads as an empty one, as in Redis. A key written with
  \<^verbatim>\<open>setEx\<close> is stored with its deadline and is served while the clock has not passed
  it; the clock of the store and \<^verbatim>\<open>Date.now()\<close> are the same clock, and one call of
  a method reads it once.
\<close>

record Store =
  events :: "EventId \<rightharpoonup> Event"
  eventSeats :: "EventId \<Rightarrow> (SeatNumber \<times> Seat) list"
  seatHold :: "EventId \<times> SeatNumber \<rightharpoonup> SeatHold \<times> Timestamp"
  seatReserved :: "EventId \<times> SeatNumber \<rightharpoonup> SeatReservation"
  userHolds :: "UserId \<times> EventId \<Rightarrow> SeatNumber fset"

definition emptyStore :: Store where
  "emptyStore = \<lparr>events = Map.empty, eventSeats = (\<lambda>_. []), seatHold = Map.empty,
     seatReserved = Map.empty, userHolds = (\<lambda>_. {||})\<rparr>"

definition hGet :: "Store \<Rightarrow> EventId \<Rightarrow> SeatNumber \<Rightarrow> Seat option" where
  "hGet s e n = map_of (eventSeats s e) n"

definition hSet :: "Store \<Rightarrow> EventId \<Rightarrow> SeatNumber \<Rightarrow> Seat \<Rightarrow> Store" where
  "hSet s e n v = s\<lparr>eventSeats := (eventSeats s)(e := AList.update n v (eventSeats s e))\<rparr>"

definition getHold :: "Store \<Rightarrow> Timestamp \<Rightarrow> EventId \<Rightarrow> SeatNumber \<Rightarrow> SeatHold option" where
  "getHold s now e n =
     (case seatHold s (e, n) of
        None \<Rightarrow> None
      | Some (h, deadline) \<Rightarrow> if now \<le> deadline then Some h else None)"

definition setExHold :: "Store \<Rightarrow> Timestamp \<Rightarrow> EventId \<Rightarrow> SeatNumber \<Rightarrow> int \<Rightarrow> SeatHold \<Rightarrow> Store" where
  "setExHold s now e n seconds h =
     s\<lparr>seatHold := (seatHold s)((e, n) \<mapsto> (h, now + seconds * 1000))\<rparr>"

definition delHold :: "Store \<Rightarrow> EventId \<Rightarrow> SeatNumber \<Rightarrow> Store" where
  "delHold s e n = s\<lparr>seatHold := (seatHold s)((e, n) := None)\<rparr>"

definition sAdd :: "Store \<Rightarrow> UserId \<Rightarrow> EventId \<Rightarrow> SeatNumber \<Rightarrow> Store" where
  "sAdd s u e n = s\<lparr>userHolds := (userHolds s)((u, e) := finsert n (userHolds s (u, e)))\<rparr>"

definition sRem :: "Store \<Rightarrow> UserId \<Rightarrow> EventId \<Rightarrow> SeatNumber \<Rightarrow> Store" where
  "sRem s u e n = s\<lparr>userHolds := (userHolds s)((u, e) := userHolds s (u, e) |-| {|n|})\<rparr>"

subsection \<open>createEvent, getEvent\<close>

definition newSeat :: "EventId \<Rightarrow> SeatNumber \<Rightarrow> Seat" where
  "newSeat e n = \<lparr>eventId = e, seatNumber = n, status = Available, userId = None,
     heldAt = None, reservedAt = None\<rparr>"

definition createEvent ::
  "Store \<Rightarrow> Timestamp \<Rightarrow> EventId \<Rightarrow> int \<Rightarrow> string \<Rightarrow> string \<Rightarrow> (error + Event) \<times> Store" where
  "createEvent s now e nSeats nm descr =
     (if nSeats < 10 \<or> nSeats > 1000 then (Inl TotalSeatsOutOfRange, s)
      else if events s e \<noteq> None then (Inl EventAlreadyExists, s)
      else
        let eventData = \<lparr>idE = e, name = nm, description = descr, totalSeats = nSeats,
              createdAt = now, statusE = Active\<rparr>;
            s1 = s\<lparr>events := (events s)(e \<mapsto> eventData)\<rparr>;
            s2 = fold (\<lambda>n st. hSet st e n (newSeat e n)) [1..nSeats] s1
        in (Inr eventData, s2))"

definition getEvent :: "Store \<Rightarrow> EventId \<Rightarrow> error + Event" where
  "getEvent s e = (case events s e of None \<Rightarrow> Inl EventNotFound | Some ev \<Rightarrow> Inr ev)"

subsection \<open>getUserHoldCount and the quota\<close>

definition getUserHoldCount :: "Store \<Rightarrow> EventId \<Rightarrow> UserId \<Rightarrow> nat" where
  "getUserHoldCount s e u = fcard (userHolds s (u, e))"

text \<open>
  \<^verbatim>\<open>MAX_HOLDS_PER_USER\<close> is read from the environment with \<^verbatim>\<open>parseInt\<close> (default 5).
  The parsed value is a parameter of the model: \<open>None\<close> stands for \<^verbatim>\<open>NaN\<close>, against
  which the comparison \<^verbatim>\<open>>=\<close> is false.
\<close>

definition quotaReached :: "nat \<Rightarrow> int option \<Rightarrow> bool" where
  "quotaReached userHoldCount maxHoldsPerUser =
     (case maxHoldsPerUser of None \<Rightarrow> False | Some m \<Rightarrow> m \<le> int userHoldCount)"

subsection \<open>holdSeat\<close>

definition holdSeat ::
  "int option \<Rightarrow> Store \<Rightarrow> Timestamp \<Rightarrow> EventId \<Rightarrow> SeatNumber \<Rightarrow> UserId \<Rightarrow> int
     \<Rightarrow> (error + SeatHold) \<times> Store" where
  "holdSeat maxHoldsPerUser s now e n u holdDuration =
     (case getEvent s e of
        Inl err \<Rightarrow> (Inl err, s)
      | Inr event \<Rightarrow>
          if n < 1 \<or> n > totalSeats event then (Inl InvalidSeatNumber, s)
          else (case hGet s e n of
            None \<Rightarrow> (Inl SeatNotFound, s)
          | Some seat \<Rightarrow>
              if status seat \<noteq> Available then (Inl SeatNotAvailable, s)
              else if quotaReached (getUserHoldCount s e u) maxHoldsPerUser
                then (Inl MaxHoldsReached, s)
              else
                let updatedSeat = seat\<lparr>status := Held, userId := Some u, heldAt := Some now\<rparr>;
                    s1 = hSet s e n updatedSeat;
                    holdData = \<lparr>h_eventId = e, h_seatNumber = n, h_userId = u,
                      h_heldAt = now, expiresAt = now + holdDuration * 1000\<rparr>
                in if holdDuration \<le> 0 then (Inl RedisInvalidExpire, s1)
                   else (Inr holdData, sAdd (setExHold s1 now e n holdDuration holdData) u e n)))"

subsection \<open>releaseSeat\<close>

text \<open>\<^verbatim>\<open>if (seat.userId)\<close> is false for \<^verbatim>\<open>null\<close> and for the empty string.\<close>

definition truthy :: "UserId option \<Rightarrow> bool" where
  "truthy x = (case x of None \<Rightarrow> False | Some u \<Rightarrow> u \<noteq> [])"

definition releaseSeat :: "Store \<Rightarrow> EventId \<Rightarrow> SeatNumber \<Rightarrow> (error + unit) \<times> Store" where
  "releaseSeat s e n =
     (case hGet s e n of
        None \<Rightarrow> (Inl SeatNotFound, s)
      | Some seat \<Rightarrow>
          if status seat = Held then
            let updatedSeat = seat\<lparr>status := Available, userId := None, heldAt := None\<rparr>;
                s1 = hSet s e n updatedSeat;
                s2 = delHold s1 e n;
                s3 = (if truthy (userId seat) then sRem s2 (the (userId seat)) e n else s2)
            in (Inr (), s3)
          else (Inr (), s))"

subsection \<open>reserveSeat\<close>

definition reserveSeat ::
  "Store \<Rightarrow> Timestamp \<Rightarrow> EventId \<Rightarrow> SeatNumber \<Rightarrow> UserId \<Rightarrow> (error + SeatReservation) \<times> Store" where
  "reserveSeat s now e n u =
     (case getHold s now e n of
        None \<Rightarrow> (Inl SeatNotHeld, s)
      | Some hold \<Rightarrow>
          if h_userId hold \<noteq> u then (Inl SeatHeldByAnotherUser, s)
          else if expiresAt hold < now then
            (case releaseSeat s e n of
               (Inl err, s') \<Rightarrow> (Inl err, s')
             | (Inr _, s') \<Rightarrow> (Inl SeatHoldExpired, s'))
          else (case hGet s e n of
            None \<Rightarrow> (Inl SeatNotFound, s)
          | Some seat \<Rightarrow>
              let updatedSeat = seat\<lparr>status := Reserved, reservedAt := Some now\<rparr>;
                  s1 = hSet s e n updatedSeat;
                  s2 = delHold s1 e n;
                  reservation = \<lparr>r_eventId = e, r_seatNumber = n, r_userId = u,
                    r_reservedAt = now\<rparr>;
                  s3 = s2\<lparr>seatReserved := (seatReserved s2)((e, n) \<mapsto> reservation)\<rparr>
              in (Inr reservation, sRem s3 u e n)))"

subsection \<open>refreshSeatHold\<close>

definition refreshSeatHold ::
  "Store \<Rightarrow> Timestamp \<Rightarrow> EventId \<Rightarrow> SeatNumber \<Rightarrow> UserId \<Rightarrow> int \<Rightarrow> (error + SeatHold) \<times> Store" where
  "refreshSeatHold s now e n u holdDuration =
     (case getHold s now e n of
        None \<Rightarrow> (Inl SeatNotHeld, s)
      | Some hold \<Rightarrow>
          if h_userId hold \<noteq> u then (Inl SeatHeldByAnotherUser, s)
          else if expiresAt hold < now then
            (case releaseSeat s e n of
               (Inl err, s') \<Rightarrow> (Inl err, s')
             | (Inr _, s') \<Rightarrow> (Inl SeatHoldExpired, s'))
          else
            let updatedHold = hold\<lparr>expiresAt := now + holdDuration * 1000\<rparr>
            in if holdDuration \<le> 0 then (Inl RedisInvalidExpire, s)
               else (Inr updatedHold, setExHold s now e n holdDuration updatedHold))"

subsection \<open>getSeatStatus\<close>

definition getSeatStatus ::
  "Store \<Rightarrow> Timestamp \<Rightarrow> EventId \<Rightarrow> SeatNumber \<Rightarrow> (error + Seat) \<times> Store" where
  "getSeatStatus s now e n =
     (case hGet s e n of
        None \<Rightarrow> (Inl SeatNotFound, s)
      | Some seat \<Rightarrow>
          if status seat = Held then
            (case getHold s now e n of
               None \<Rightarrow>
                 (case releaseSeat s e n of
                    (Inl err, s') \<Rightarrow> (Inl err, s')
                  | (Inr _, s') \<Rightarrow>
                      (Inr (seat\<lparr>status := Available, userId := None, heldAt := None\<rparr>), s'))
             | Some _ \<Rightarrow> (Inr seat, s))
          else (Inr seat, s))"

subsection \<open>getAvailableSeats\<close>

text \<open>
  The loop runs over the entries that \<^verbatim>\<open>hGetAll\<close> returned when the method started;
  \<^verbatim>\<open>releaseSeat\<close> reads the store again. The result carries the seat numbers (the
  \<^verbatim>\<open>status\<close> of every element is the constant \<^verbatim>\<open>'available'\<close>).
\<close>

fun availableLoop ::
  "Timestamp \<Rightarrow> EventId \<Rightarrow> (SeatNumber \<times> Seat) list \<Rightarrow> SeatNumber list \<Rightarrow> Store
     \<Rightarrow> (error + SeatNumber list) \<times> Store" where
  "availableLoop now e [] availableSeats s = (Inr availableSeats, s)"
| "availableLoop now e ((k, seat) # rest) availableSeats s =
     (if status seat = Available then availableLoop now e rest (availableSeats @ [k]) s
      else if status seat = Held then
        (case getHold s now e k of
           None \<Rightarrow>
             (case releaseSeat s e k of
                (Inl err, s') \<Rightarrow> (Inl err, s')
              | (Inr _, s') \<Rightarrow> availableLoop now e rest (availableSeats @ [k]) s')
         | Some _ \<Rightarrow> availableLoop now e rest availableSeats s)
      else availableLoop now e rest availableSeats s)"

definition getAvailableSeats ::
  "Store \<Rightarrow> Timestamp \<Rightarrow> EventId \<Rightarrow> (error + SeatNumber list) \<times> Store" where
  "getAvailableSeats s now e =
     (case getEvent s e of
        Inl err \<Rightarrow> (Inl err, s)
      | Inr event \<Rightarrow>
          (case availableLoop now e (eventSeats s e) [] s of
             (Inl err, s') \<Rightarrow> (Inl err, s')
           | (Inr availableSeats, s') \<Rightarrow> (Inr (sort availableSeats), s')))"

section \<open>Runs of the service\<close>

text \<open>
  The methods that write to the store, as calls with their arguments. A run performs calls
  one after another, each at its own clock reading; a store is reachable when a run from
  the empty store produces it.
\<close>

datatype call =
    CreateEvent EventId int string string
  | HoldSeat EventId SeatNumber UserId int
  | ReserveSeat EventId SeatNumber UserId
  | ReleaseSeat EventId SeatNumber
  | RefreshSeatHold EventId SeatNumber UserId int
  | GetAvailableSeats EventId
  | GetSeatStatus EventId SeatNumber

fun perform :: "int option \<Rightarrow> Store \<Rightarrow> Timestamp \<Rightarrow> call \<Rightarrow> Store" where
  "perform mx s now (CreateEvent e nSeats nm descr) = snd (createEvent s now e nSeats nm descr)"
| "perform mx s now (HoldSeat e n u d) = snd (holdSeat mx s now e n u d)"
| "perform mx s now (ReserveSeat e n u) = snd (reserveSeat s now e n u)"
| "perform mx s now (ReleaseSeat e n) = snd (releaseSeat s e n)"
| "perform mx s now (RefreshSeatHold e n u d) = snd (refreshSeatHold s now e n u d)"
| "perform mx s now (GetAvailableSeats e) = snd (getAvailableSeats s now e)"
| "perform mx s now (GetSeatStatus e n) = snd (getSeatStatus s now e n)"


inductive reachable :: "int option \<Rightarrow> Store \<Rightarrow> bool" for mx :: "int option" where
  reachable_empty: "reachable mx emptyStore"
| reachable_perform: "reachable mx s \<Longrightarrow> reachable mx (perform mx s now c)"

definition seatStatus :: "Store \<Rightarrow> EventId \<Rightarrow> SeatNumber \<Rightarrow> SeatStatus option" where
  "seatStatus s e n = map_option status (hGet s e n)"


section \<open>Consistency of a store\<close>

text \<open>
  What every run keeps true of the store: a seat record carries a holder and a held-at time
  exactly when it is not available and a reserved-at time exactly when it is reserved; a
  stored hold key belongs to a held seat of the same user; seat records exist only for
  created events; and a hash has one entry for each field.
\<close>

definition seatOK :: "Seat \<Rightarrow> bool" where
  "seatOK seat =
     ((userId seat \<noteq> None \<longleftrightarrow> status seat \<noteq> Available) \<and>
      (heldAt seat \<noteq> None \<longleftrightarrow> status seat \<noteq> Available) \<and>
      (reservedAt seat \<noteq> None \<longleftrightarrow> status seat = Reserved))"

definition consistent :: "Store \<Rightarrow> bool" where
  "consistent s =
     ((\<forall>e. distinct (map fst (eventSeats s e))) \<and>
      (\<forall>e n seat. hGet s e n = Some seat \<longrightarrow> seatOK seat) \<and>
      (\<forall>e n h dl. seatHold s (e, n) = Some (h, dl) \<longrightarrow>
         (\<exists>seat. hGet s e n = Some seat \<and> status seat = Held \<and> userId seat = Some (h_userId h))) \<and>
      (\<forall>e n. hGet s e n \<noteq> None \<longrightarrow> events s e \<noteq> None))"

definition distinctSeats :: "Store \<Rightarrow> bool" where
  "distinctSeats s = (\<forall>e. distinct (map fst (eventSeats s e)))"

section \<open>What getAvailableSeats lists\<close>

text \<open>
  An entry of the seat hash is listed when its status is available, or when its status is
  held and the hold key is not served; the second kind is released on the way.
\<close>

definition expiredHeld :: "Store \<Rightarrow> Timestamp \<Rightarrow> EventId \<Rightarrow> SeatNumber \<times> Seat \<Rightarrow> bool" where
  "expiredHeld s now e x = (status (snd x) = Held \<and> getHold s now e (fst x) = None)"

definition listed :: "Store \<Rightarrow> Timestamp \<Rightarrow> EventId \<Rightarrow> SeatNumber \<times> Seat \<Rightarrow> bool" where
  "listed s now e x = (status (snd x) = Available \<or> expiredHeld s now e x)"

definition released :: "Seat \<Rightarrow> Seat" where
  "released seat = seat\<lparr>status := Available, userId := None, heldAt := None\<rparr>"

text \<open>How a call other than a hold, a reserve or a creation may change a seat record.\<close>

definition sameOrReleased :: "Seat option \<Rightarrow> Seat option \<Rightarrow> bool" where
  "sameOrReleased old new =
     (new = old \<or> (\<exists>seat. old = Some seat \<and> status seat = Held \<and> new = Some (released seat)))"

section \<open>Stores used in the examples\<close>

definition freshStore :: Store where
  "freshStore = perform (Some 2) emptyStore 0 (CreateEvent ''e'' 10 ''show'' [])"

definition heldStore :: Store where
  "heldStore = perform (Some 2) freshStore 1000 (HoldSeat ''e'' 3 ''a'' 60)"




section \<open>Interleaved calls of holdSeat\<close>

text \<open>
  holdSeat awaits six Redis commands. Between two of them other calls may run, so a call is
  a small machine: its state names the command it is about to send and carries the local
  variables computed so far. A step sends that command, which Redis executes atomically,
  and runs the method up to the next command, reading the clock there.
\<close>

record HoldCall =
  c_eventId :: EventId
  c_seatNumber :: SeatNumber
  c_userId :: UserId
  c_holdDuration :: int

datatype HoldPc =
    AtGetEvent
  | AtHGet
  | AtSCard Seat
  | AtHSet Seat Timestamp
  | AtSetEx SeatHold
  | AtSAdd SeatHold
  | Returned "error + SeatHold"

fun holdStep :: "int option \<Rightarrow> HoldCall \<Rightarrow> Timestamp \<Rightarrow> HoldPc \<Rightarrow> Store \<Rightarrow> HoldPc \<times> Store" where
  "holdStep mx c now AtGetEvent s =
     (case getEvent s (c_eventId c) of
        Inl err \<Rightarrow> (Returned (Inl err), s)
      | Inr event \<Rightarrow>
          if c_seatNumber c < 1 \<or> c_seatNumber c > totalSeats event
          then (Returned (Inl InvalidSeatNumber), s) else (AtHGet, s))"
| "holdStep mx c now AtHGet s =
     (case hGet s (c_eventId c) (c_seatNumber c) of
        None \<Rightarrow> (Returned (Inl SeatNotFound), s)
      | Some seat \<Rightarrow>
          if status seat \<noteq> Available then (Returned (Inl SeatNotAvailable), s)
          else (AtSCard seat, s))"
| "holdStep mx c now (AtSCard seat) s =
     (if quotaReached (getUserHoldCount s (c_eventId c) (c_userId c)) mx
      then (Returned (Inl MaxHoldsReached), s)
      else (AtHSet seat now, s))"
| "holdStep mx c now (AtHSet seat heldAt') s =
     (AtSetEx \<lparr>h_eventId = c_eventId c, h_seatNumber = c_seatNumber c, h_userId = c_userId c,
        h_heldAt = heldAt', expiresAt = now + c_holdDuration c * 1000\<rparr>,
      hSet s (c_eventId c) (c_seatNumber c)
        (seat\<lparr>status := Held, userId := Some (c_userId c), heldAt := Some heldAt'\<rparr>))"
| "holdStep mx c now (AtSetEx holdData) s =
     (if c_holdDuration c \<le> 0 then (Returned (Inl RedisInvalidExpire), s)
      else (AtSAdd holdData,
        setExHold s now (c_eventId c) (c_seatNumber c) (c_holdDuration c) holdData))"
| "holdStep mx c now (AtSAdd holdData) s =
     (Returned (Inr holdData), sAdd s (c_userId c) (c_eventId c) (c_seatNumber c))"
| "holdStep mx c now (Returned r) s = (Returned r, s)"








section \<open>EnhancedSeatService (enhancedSeatService.ts)\<close>

text \<open>
  The durable store is PostgreSQL with the tables of database/schema.sql: events, seats and
  reservations, the last two unique on (event_id, seat_number) and referring to an event.
  A statement that violates a constraint throws, and the catch block rolls the transaction
  back: the rows written by the method so far are restored, what was written to Redis
  stays. Redis holds the lock keys, the hold keys and the sets of held seats. The content of
  a lock key, the text of the user id, a colon and the clock reading, is modelled by the
  pair. The caches of events and seats, the notifications and the timer that calls
  releaseSeat when the hold duration has passed are outside these definitions; the timer
  is a call of releaseSeat like any other.
\<close>

record EStore =
  eventsTable :: "EventId \<rightharpoonup> Event"
  seatsTable :: "EventId \<times> SeatNumber \<rightharpoonup> Seat"
  reservationsTable :: "EventId \<times> SeatNumber \<rightharpoonup> SeatReservation"
  lockKeys :: "EventId \<times> SeatNumber \<rightharpoonup> (UserId \<times> Timestamp) \<times> Timestamp"
  holdKeys :: "EventId \<times> SeatNumber \<rightharpoonup> SeatHold \<times> Timestamp"
  userHoldSets :: "UserId \<times> EventId \<Rightarrow> SeatNumber fset"

definition emptyEStore :: EStore where
  "emptyEStore = \<lparr>eventsTable = Map.empty, seatsTable = Map.empty, reservationsTable = Map.empty,
     lockKeys = Map.empty, holdKeys = Map.empty, userHoldSets = (\<lambda>_. {||})\<rparr>"

subsection \<open>The lock of holdSeat\<close>

definition getLock :: "EStore \<Rightarrow> Timestamp \<Rightarrow> EventId \<Rightarrow> SeatNumber \<Rightarrow> (UserId \<times> Timestamp) option" where
  "getLock s now e n =
     (case lockKeys s (e, n) of
        None \<Rightarrow> None
      | Some (lockValue, deadline) \<Rightarrow> if now \<le> deadline then Some lockValue else None)"

text \<open>\<^verbatim>\<open>set(lockKey, lockValue, { EX: 10, NX: true })\<close>: the result is \<open>None\<close> when the key exists.\<close>

definition acquireLock :: "EStore \<Rightarrow> Timestamp \<Rightarrow> EventId \<Rightarrow> SeatNumber \<Rightarrow> UserId \<Rightarrow> EStore option" where
  "acquireLock s now e n u =
     (case getLock s now e n of
        Some _ \<Rightarrow> None
      | None \<Rightarrow> Some (s\<lparr>lockKeys := (lockKeys s)((e, n) \<mapsto> ((u, now), now + 10 * 1000))\<rparr>))"

text \<open>\<^verbatim>\<open>del(lockKey)\<close> in the finally block.\<close>

definition releaseLock :: "EStore \<Rightarrow> EventId \<Rightarrow> SeatNumber \<Rightarrow> EStore" where
  "releaseLock s e n = s\<lparr>lockKeys := (lockKeys s)((e, n) := None)\<rparr>"

subsection \<open>holdSeat\<close>

definition enhancedGetHold :: "EStore \<Rightarrow> Timestamp \<Rightarrow> EventId \<Rightarrow> SeatNumber \<Rightarrow> SeatHold option" where
  "enhancedGetHold s now e n =
     (case holdKeys s (e, n) of
        None \<Rightarrow> None
      | Some (h, deadline) \<Rightarrow> if now \<le> deadline then Some h else None)"

definition enhancedGetUserHoldCount :: "EStore \<Rightarrow> EventId \<Rightarrow> UserId \<Rightarrow> nat" where
  "enhancedGetUserHoldCount s e u = fcard (userHoldSets s (u, e))"

text \<open>The try block of holdSeat, from BEGIN to COMMIT or ROLLBACK.\<close>

definition holdTransaction ::
  "int option \<Rightarrow> EStore \<Rightarrow> Timestamp \<Rightarrow> EventId \<Rightarrow> SeatNumber \<Rightarrow> UserId \<Rightarrow> int
     \<Rightarrow> (error + SeatHold) \<times> EStore" where
  "holdTransaction maxHoldsPerUser s now e n u holdDuration =
     (case seatsTable s (e, n) of
        None \<Rightarrow> (Inl SeatNotFound, s)
      | Some seat \<Rightarrow>
          if status seat \<noteq> Available then (Inl SeatNotAvailable, s)
          else if quotaReached (enhancedGetUserHoldCount s e u) maxHoldsPerUser
            then (Inl MaxHoldsReached, s)
          else
            let s1 = s\<lparr>seatsTable := (seatsTable s)((e, n) \<mapsto>
                       seat\<lparr>status := Held, userId := Some u, heldAt := Some now\<rparr>)\<rparr>;
                holdData = \<lparr>h_eventId = e, h_seatNumber = n, h_userId = u,
                  h_heldAt = now, expiresAt = now + holdDuration * 1000\<rparr>
            in if holdDuration \<le> 0 then (Inl RedisInvalidExpire, s)
               else (Inr holdData,
                 s1\<lparr>holdKeys := (holdKeys s1)((e, n) \<mapsto> (holdData, now + holdDuration * 1000)),
                    userHoldSets := (userHoldSets s1)((u, e) := finsert n (userHoldSets s1 (u, e)))\<rparr>))"

definition enhancedHoldSeat ::
  "int option \<Rightarrow> EStore \<Rightarrow> Timestamp \<Rightarrow> EventId \<Rightarrow> SeatNumber \<Rightarrow> UserId \<Rightarrow> int
     \<Rightarrow> (error + SeatHold) \<times> EStore" where
  "enhancedHoldSeat maxHoldsPerUser s now e n u holdDuration =
     (case acquireLock s now e n u of
        None \<Rightarrow> (Inl SeatBeingProcessed, s)
      | Some s1 \<Rightarrow>
          (case holdTransaction maxHoldsPerUser s1 now e n u holdDuration of
             (r, s2) \<Rightarrow> (r, releaseLock s2 e n)))"

subsection \<open>releaseSeat\<close>

definition enhancedReleaseSeat :: "EStore \<Rightarrow> EventId \<Rightarrow> SeatNumber \<Rightarrow> (error + unit) \<times> EStore" where
  "enhancedReleaseSeat s e n =
     (case seatsTable s (e, n) of
        None \<Rightarrow> (Inl SeatNotFound, s)
      | Some seat \<Rightarrow>
          if status seat = Held then
            let s1 = s\<lparr>seatsTable := (seatsTable s)((e, n) \<mapsto>
                       seat\<lparr>status := Available, userId := None, heldAt := None\<rparr>)\<rparr>;
                s2 = s1\<lparr>holdKeys := (holdKeys s1)((e, n) := None)\<rparr>;
                s3 = (if truthy (userId seat)
                      then s2\<lparr>userHoldSets := (userHoldSets s2)((the (userId seat), e) :=
                             userHoldSets s2 (the (userId seat), e) |-| {|n|})\<rparr>
                      else s2)
            in (Inr (), s3)
          else (Inr (), s))"

subsection \<open>reserveSeat\<close>

text \<open>
  The UPDATE changes the row if there is one. The INSERT into reservations throws when the
  seat has a reservation already or the event has no row; the rollback then undoes the
  UPDATE, and Redis has not been written yet.
\<close>

definition enhancedReserveSeat ::
  "EStore \<Rightarrow> Timestamp \<Rightarrow> EventId \<Rightarrow> SeatNumber \<Rightarrow> UserId \<Rightarrow> (error + SeatReservation) \<times> EStore" where
  "enhancedReserveSeat s now e n u =
     (case enhancedGetHold s now e n of
        None \<Rightarrow> (Inl SeatNotHeld, s)
      | Some hold \<Rightarrow>
          if h_userId hold \<noteq> u then (Inl SeatHeldByAnotherUser, s)
          else if expiresAt hold < now then
            (case enhancedReleaseSeat s e n of
               (Inl err, s') \<Rightarrow> (Inl err, s')
             | (Inr _, s') \<Rightarrow> (Inl SeatHoldExpired, s'))
          else
            let s1 = (case seatsTable s (e, n) of
                        None \<Rightarrow> s
                      | Some seat \<Rightarrow> s\<lparr>seatsTable := (seatsTable s)((e, n) \<mapsto>
                          seat\<lparr>status := Reserved, reservedAt := Some now\<rparr>)\<rparr>);
                reservation = \<lparr>r_eventId = e, r_seatNumber = n, r_userId = u,
                  r_reservedAt = now\<rparr>
            in if reservationsTable s (e, n) \<noteq> None \<or> eventsTable s e = None
               then (Inl PgConstraintViolation, s)
               else (Inr reservation,
                 s1\<lparr>reservationsTable := (reservationsTable s1)((e, n) \<mapsto> reservation),
                    holdKeys := (holdKeys s1)((e, n) := None),
                    userHoldSets := (userHoldSets s1)((u, e) := userHoldSets s1 (u, e) |-| {|n|})\<rparr>))"


subsection \<open>createEvent, refreshSeatHold\<close>

text \<open>
  The seats are inserted by one statement, which throws when a row for one of them exists.
\<close>

definition enhancedCreateEvent ::
  "EStore \<Rightarrow> Timestamp \<Rightarrow> EventId \<Rightarrow> int \<Rightarrow> string \<Rightarrow> string \<Rightarrow> (error + Event) \<times> EStore" where
  "enhancedCreateEvent s now e nSeats nm descr =
     (if nSeats < 10 \<or> nSeats > 1000 then (Inl TotalSeatsOutOfRange, s)
      else if eventsTable s e \<noteq> None then (Inl EventAlreadyExists, s)
      else if \<exists>i\<in>set [1..nSeats]. seatsTable s (e, i) \<noteq> None then (Inl PgConstraintViolation, s)
      else
        let eventData = \<lparr>idE = e, name = nm, description = descr, totalSeats = nSeats,
              createdAt = now, statusE = Active\<rparr>;
            s1 = s\<lparr>eventsTable := (eventsTable s)(e \<mapsto> eventData)\<rparr>;
            s2 = fold (\<lambda>i st. st\<lparr>seatsTable := (seatsTable st)((e, i) \<mapsto> newSeat e i)\<rparr>)
                   [1..nSeats] s1
        in (Inr eventData, s2))"

definition enhancedRefreshSeatHold ::
  "EStore \<Rightarrow> Timestamp \<Rightarrow> EventId \<Rightarrow> SeatNumber \<Rightarrow> UserId \<Rightarrow> int \<Rightarrow> (error + SeatHold) \<times> EStore" where
  "enhancedRefreshSeatHold s now e n u holdDuration =
     (case enhancedGetHold s now e n of
        None \<Rightarrow> (Inl SeatNotHeld, s)
      | Some hold \<Rightarrow>
          if h_userId hold \<noteq> u then (Inl SeatHeldByAnotherUser, s)
          else if expiresAt hold < now then
            (case enhancedReleaseSeat s e n of
               (Inl err, s') \<Rightarrow> (Inl err, s')
             | (Inr _, s') \<Rightarrow> (Inl SeatHoldExpired, s'))
          else
            let updatedHold = hold\<lparr>expiresAt := now + holdDuration * 1000\<rparr>
            in if holdDuration \<le> 0 then (Inl RedisInvalidExpire, s)
               else (Inr updatedHold,
                 s\<lparr>holdKeys := (holdKeys s)((e, n) \<mapsto> (updatedHold, now + holdDuration * 1000))\<rparr>))"

subsection \<open>Runs of EnhancedSeatService\<close>

fun enhancedPerform :: "int option \<Rightarrow> EStore \<Rightarrow> Timestamp \<Rightarrow> call \<Rightarrow> EStore" where
  "enhancedPerform mx s now (CreateEvent e nSeats nm descr) =
     snd (enhancedCreateEvent s now e nSeats nm descr)"
| "enhancedPerform mx s now (HoldSeat e n u d) = snd (enhancedHoldSeat mx s now e n u d)"
| "enhancedPerform mx s now (ReserveSeat e n u) = snd (enhancedReserveSeat s now e n u)"
| "enhancedPerform mx s now (ReleaseSeat e n) = snd (enhancedReleaseSeat s e n)"
| "enhancedPerform mx s now (RefreshSeatHold e n u d) = snd (enhancedRefreshSeatHold s now e n u d)"
| "enhancedPerform mx s now (GetAvailableSeats e) = s"
| "enhancedPerform mx s now (GetSeatStatus e n) = s"

inductive enhancedReachable :: "int option \<Rightarrow> EStore \<Rightarrow> bool" for mx :: "int option" where
  enhancedReachable_empty: "enhancedReachable mx emptyEStore"
| enhancedReachable_perform:
    "enhancedReachable mx s \<Longrightarrow> enhancedReachable mx (enhancedPerform mx s now c)"

definition enhancedConsistent :: "EStore \<Rightarrow> bool" where
  "enhancedConsistent s =
     ((\<forall>e n seat. seatsTable s (e, n) = Some seat \<longrightarrow> seatOK seat \<and> eventsTable s e \<noteq> None) \<and>
      (\<forall>e n h dl. holdKeys s (e, n) = Some (h, dl) \<longrightarrow>
         (\<exists>seat. seatsTable s (e, n) = Some seat \<and> status seat = Held \<and>
            userId seat = Some (h_userId h))) \<and>
      (\<forall>e n r. reservationsTable s (e, n) = Some r \<longrightarrow>
         (\<exists>seat. seatsTable s (e, n) = Some seat \<and> status seat = Reserved)))"


subsection \<open>Stores of EnhancedSeatService used in the examples\<close>

definition freshEStore :: EStore where
  "freshEStore = enhancedPerform (Some 2) emptyEStore 0 (CreateEvent ''e'' 10 ''show'' [])"

definition heldEStore :: EStore where
  "heldEStore = enhancedPerform (Some 2) freshEStore 1000 (HoldSeat ''e'' 3 ''a'' 60)"

definition reservedEStore :: EStore where
  "reservedEStore = enhancedPerform (Some 2) heldEStore 2000 (ReserveSeat ''e'' 3 ''a'')"







section \<open>Reading the store after a write\<close>

lemma hGet_other [simp]:
  "hGet (delHold s e n) = hGet s"
  "hGet (setExHold s now e n d h) = hGet s"
  "hGet (sAdd s u e n) = hGet s"
  "hGet (sRem s u e n) = hGet s"
  "hGet (s\<lparr>seatReserved := r\<rparr>) = hGet s"
  "hGet (s\<lparr>events := ev\<rparr>) = hGet s"
  by (simp_all add: hGet_def delHold_def setExHold_def sAdd_def sRem_def fun_eq_iff)

lemma seatHold_prims [simp]:
  "seatHold (hSet s e n v) = seatHold s"
  "seatHold (delHold s e n) = (seatHold s)((e, n) := None)"
  "seatHold (setExHold s now e n d h) = (seatHold s)((e, n) \<mapsto> (h, now + d * 1000))"
  "seatHold (sAdd s u e n) = seatHold s"
  "seatHold (sRem s u e n) = seatHold s"
  by (simp_all add: hSet_def delHold_def setExHold_def sAdd_def sRem_def)

lemma events_prims [simp]:
  "events (hSet s e n v) = events s"
  "events (delHold s e n) = events s"
  "events (setExHold s now e n d h) = events s"
  "events (sAdd s u e n) = events s"
  "events (sRem s u e n) = events s"
  by (simp_all add: hSet_def delHold_def setExHold_def sAdd_def sRem_def)

lemma seatReserved_prims [simp]:
  "seatReserved (hSet s e n v) = seatReserved s"
  "seatReserved (delHold s e n) = seatReserved s"
  "seatReserved (setExHold s now e n d h) = seatReserved s"
  "seatReserved (sAdd s u e n) = seatReserved s"
  "seatReserved (sRem s u e n) = seatReserved s"
  by (simp_all add: hSet_def delHold_def setExHold_def sAdd_def sRem_def)

lemma userHolds_prims [simp]:
  "userHolds (hSet s e n v) = userHolds s"
  "userHolds (delHold s e n) = userHolds s"
  "userHolds (setExHold s now e n d h) = userHolds s"
  "userHolds (sAdd s u e n) = (userHolds s)((u, e) := finsert n (userHolds s (u, e)))"
  "userHolds (sRem s u e n) = (userHolds s)((u, e) := userHolds s (u, e) |-| {|n|})"
  by (simp_all add: hSet_def delHold_def setExHold_def sAdd_def sRem_def)

lemma distinct_eventSeats_hSet:
  "distinct (map fst (eventSeats (hSet s e n v) e')) = distinct (map fst (eventSeats s e'))"
  by (simp add: hSet_def update_keys)

lemma distinctSeats_prims [simp]:
  "distinctSeats (hSet s e n v) = distinctSeats s"
  "distinctSeats (delHold s e n) = distinctSeats s"
  "distinctSeats (setExHold s now e n d h) = distinctSeats s"
  "distinctSeats (sAdd s u e n) = distinctSeats s"
  "distinctSeats (sRem s u e n) = distinctSeats s"
  "distinctSeats (s\<lparr>seatReserved := r\<rparr>) = distinctSeats s"
  "distinctSeats (s\<lparr>events := ev\<rparr>) = distinctSeats s"
  by (simp_all add: distinctSeats_def distinct_eventSeats_hSet delHold_def setExHold_def sAdd_def sRem_def)

lemma hGet_hSet [simp]: "hGet (hSet s e n v) e' n' = (if e' = e \<and> n' = n then Some v else hGet s e' n')"
  by (simp add: hGet_def hSet_def update_conv')



lemma consI:
  assumes d: "distinctSeats s"
    and ok: "\<And>e n seat. hGet s e n = Some seat \<Longrightarrow> seatOK seat"
    and hold: "\<And>e n h dl. seatHold s (e, n) = Some (h, dl) \<Longrightarrow>
         \<exists>seat. hGet s e n = Some seat \<and> status seat = Held \<and> userId seat = Some (h_userId h)"
    and ev: "\<And>e n seat. hGet s e n = Some seat \<Longrightarrow> events s e \<noteq> None"
  shows "consistent s"
  unfolding consistent_def
proof (intro conjI allI impI)
  fix e show "distinct (map fst (eventSeats s e))" using d by (simp add: distinctSeats_def)
next
  fix e n seat assume "hGet s e n = Some seat" then show "seatOK seat" by (rule ok)
next
  fix e n h dl assume "seatHold s (e, n) = Some (h, dl)"
  then show "\<exists>seat. hGet s e n = Some seat \<and> status seat = Held \<and> userId seat = Some (h_userId h)"
    by (rule hold)
next
  fix e n assume "hGet s e n \<noteq> None"
  then obtain seat where "hGet s e n = Some seat" by auto
  then show "events s e \<noteq> None" by (rule ev)
qed

lemma cons_distinct: "consistent s \<Longrightarrow> distinctSeats s"
  by (simp add: consistent_def distinctSeats_def)

lemma cons_seatOK: "consistent s \<Longrightarrow> hGet s e n = Some seat \<Longrightarrow> seatOK seat"
  by (simp add: consistent_def)

lemma cons_hold: "consistent s \<Longrightarrow> seatHold s (e, n) = Some (h, dl) \<Longrightarrow>
  \<exists>seat. hGet s e n = Some seat \<and> status seat = Held \<and> userId seat = Some (h_userId h)"
  by (simp add: consistent_def)

lemma cons_event: "consistent s \<Longrightarrow> hGet s e n = Some seat \<Longrightarrow> events s e \<noteq> None"
  unfolding consistent_def by (elim conjE allE [of _ e] allE [of _ n]) simp


lemma cons_single_seat:
  assumes c: "consistent s"
    and d: "distinctSeats s' = distinctSeats s"
    and ev: "\<And>e'. events s e' \<noteq> None \<Longrightarrow> events s' e' \<noteq> None"
    and seats: "\<And>e' n'. \<not> (e' = e \<and> n' = n) \<Longrightarrow> hGet s' e' n' = hGet s e' n'"
    and holds: "\<And>e' n'. \<not> (e' = e \<and> n' = n) \<Longrightarrow> seatHold s' (e', n') = seatHold s (e', n')"
    and v: "hGet s' e n = Some v" "seatOK v" "events s e \<noteq> None"
    and l: "\<And>h dl. seatHold s' (e, n) = Some (h, dl) \<Longrightarrow>
              status v = Held \<and> userId v = Some (h_userId h)"
  shows "consistent s'"
proof (rule consI)
  show "distinctSeats s'" using cons_distinct[OF c] d by simp
next
  fix e' n' seat'
  assume a: "hGet s' e' n' = Some seat'"
  show "seatOK seat'"
  proof (cases "e' = e \<and> n' = n")
    case True
    then show ?thesis using a v by simp
  next
    case False
    then show ?thesis using a seats[OF False] cons_seatOK[OF c, of e' n' seat'] by simp
  qed
  show "events s' e' \<noteq> None"
  proof (cases "e' = e \<and> n' = n")
    case True
    then show ?thesis using v(3) ev by simp
  next
    case False
    then have "hGet s e' n' = Some seat'" using a seats[OF False] by simp
    then show ?thesis using cons_event[OF c, of e' n' seat'] ev by simp
  qed
next
  fix e' n' h dl
  assume a: "seatHold s' (e', n') = Some (h, dl)"
  show "\<exists>seat. hGet s' e' n' = Some seat \<and> status seat = Held \<and> userId seat = Some (h_userId h)"
  proof (cases "e' = e \<and> n' = n")
    case True
    then show ?thesis using a l[of h dl] v(1) by simp
  next
    case False
    then have "seatHold s (e', n') = Some (h, dl)" using a holds[OF False] by simp
    from cons_hold[OF c this] show ?thesis using seats[OF False] by simp
  qed
qed

lemma cons_releaseSeat:
  assumes "consistent s" shows "consistent (snd (releaseSeat s e n))"
proof (cases "hGet s e n")
  case None
  then show ?thesis using assms by (simp add: releaseSeat_def)
next
  case (Some seat)
  show ?thesis
  proof (cases "status seat = Held")
    case False
    then show ?thesis using assms Some by (simp add: releaseSeat_def)
  next
    case True
    have ok: "seatOK seat" using assms Some by (rule cons_seatOK)
    show ?thesis
    proof (rule cons_single_seat[OF assms, where e = e and n = n])
      show "seatOK (seat\<lparr>status := Available, userId := None, heldAt := None\<rparr>)"
        using ok True by (simp add: seatOK_def)
      show "events s e \<noteq> None" using assms Some by (rule cons_event)
    qed (use Some True in \<open>auto simp: releaseSeat_def Let_def split: if_splits\<close>)
  qed
qed

lemma cons_holdSeat:
  assumes "consistent s" shows "consistent (snd (holdSeat mx s now e n u d))"
proof (cases "\<exists>err. holdSeat mx s now e n u d = (Inl err, s)")
  case True
  then show ?thesis using assms by auto
next
  case False
  then obtain ev seat where ev: "events s e = Some ev" and seat: "hGet s e n = Some seat"
    and av: "status seat = Available"
    by (auto simp: holdSeat_def getEvent_def Let_def split: option.splits if_splits)
  have ok: "seatOK seat" using assms seat by (rule cons_seatOK)
  show ?thesis
  proof (rule cons_single_seat[OF assms, where e = e and n = n])
    show "seatOK (seat\<lparr>status := Held, userId := Some u, heldAt := Some now\<rparr>)"
      using ok av by (simp add: seatOK_def)
    show "events s e \<noteq> None" using ev by simp
    show "hGet (snd (holdSeat mx s now e n u d)) e n =
        Some (seat\<lparr>status := Held, userId := Some u, heldAt := Some now\<rparr>)"
      using False ev seat av
      by (auto simp: holdSeat_def getEvent_def Let_def split: option.splits if_splits)
  next
    fix h dl
    assume "seatHold (snd (holdSeat mx s now e n u d)) (e, n) = Some (h, dl)"
    moreover have "seatHold s (e, n) = None"
      using cons_hold[OF assms, of e n] av seat by (cases "seatHold s (e, n)") auto
    ultimately show "status (seat\<lparr>status := Held, userId := Some u, heldAt := Some now\<rparr>) = Held \<and>
        userId (seat\<lparr>status := Held, userId := Some u, heldAt := Some now\<rparr>) = Some (h_userId h)"
      using ev seat av
      by (auto simp: holdSeat_def getEvent_def Let_def split: option.splits if_splits)
  qed (auto simp: holdSeat_def getEvent_def Let_def split: option.splits if_splits sum.splits)
qed

lemma cons_reserveSeat:
  assumes "consistent s" shows "consistent (snd (reserveSeat s now e n u))"
proof (cases "\<exists>err. reserveSeat s now e n u = (Inl err, s)")
  case True
  then show ?thesis using assms by auto
next
  case False
  note nf = this
  then obtain hold where hold: "getHold s now e n = Some hold" "h_userId hold = u"
    by (auto simp: reserveSeat_def split: option.splits if_splits)
  show ?thesis
  proof (cases "expiresAt hold < now")
    case True
    then have "snd (reserveSeat s now e n u) = snd (releaseSeat s e n)"
      using hold by (auto simp: reserveSeat_def split: prod.splits sum.splits)
    then show ?thesis using cons_releaseSeat[OF assms] by simp
  next
    case False
    then obtain seat where seat: "hGet s e n = Some seat"
      using nf hold by (auto simp: reserveSeat_def split: option.splits)
    obtain dl where "seatHold s (e, n) = Some (hold, dl)"
      using hold(1) by (auto simp: getHold_def split: option.splits if_splits)
    from cons_hold[OF assms this] seat have held: "status seat = Held" by auto
    have ok: "seatOK seat" using assms seat by (rule cons_seatOK)
    show ?thesis
    proof (rule cons_single_seat[OF assms, where e = e and n = n])
      show "seatOK (seat\<lparr>status := Reserved, reservedAt := Some now\<rparr>)"
        using ok held by (simp add: seatOK_def)
      show "events s e \<noteq> None" using assms seat by (rule cons_event)
    qed (use hold False seat in \<open>auto simp: reserveSeat_def Let_def\<close>)
  qed
qed

lemma cons_refreshSeatHold:
  assumes "consistent s" shows "consistent (snd (refreshSeatHold s now e n u d))"
proof (cases "\<exists>err. refreshSeatHold s now e n u d = (Inl err, s)")
  case True
  then show ?thesis using assms by auto
next
  case False
  note nf = this
  then obtain hold where hold: "getHold s now e n = Some hold" "h_userId hold = u"
    by (auto simp: refreshSeatHold_def split: option.splits if_splits)
  show ?thesis
  proof (cases "expiresAt hold < now")
    case True
    then have "snd (refreshSeatHold s now e n u d) = snd (releaseSeat s e n)"
      using hold by (auto simp: refreshSeatHold_def split: prod.splits sum.splits)
    then show ?thesis using cons_releaseSeat[OF assms] by simp
  next
    case False
    obtain dl where "seatHold s (e, n) = Some (hold, dl)"
      using hold(1) by (auto simp: getHold_def split: option.splits if_splits)
    from cons_hold[OF assms this] obtain seat where seat: "hGet s e n = Some seat"
      "status seat = Held" "userId seat = Some (h_userId hold)" by blast
    have ok: "seatOK seat" using assms seat(1) by (rule cons_seatOK)
    show ?thesis
    proof (rule cons_single_seat[OF assms, where e = e and n = n and v = seat])
      show "seatOK seat" by (rule ok)
      show "events s e \<noteq> None" using assms seat(1) by (rule cons_event)
    qed (use hold False seat nf in \<open>auto simp: refreshSeatHold_def Let_def split: if_splits\<close>)
  qed
qed

lemma cons_getSeatStatus:
  assumes "consistent s" shows "consistent (snd (getSeatStatus s now e n))"
proof -
  have "snd (getSeatStatus s now e n) = s \<or> snd (getSeatStatus s now e n) = snd (releaseSeat s e n)"
    by (auto simp: getSeatStatus_def split: option.splits prod.splits sum.splits)
  then show ?thesis using assms cons_releaseSeat[OF assms] by auto
qed

lemma cons_availableLoop:
  "consistent s \<Longrightarrow> consistent (snd (availableLoop now e xs acc s))"
proof (induction xs arbitrary: acc s)
  case Nil
  then show ?case by simp
next
  case (Cons x xs)
  obtain k seat where x: "x = (k, seat)" by (cases x)
  have r: "consistent (snd (releaseSeat s e k))" using Cons.prems by (rule cons_releaseSeat)
  show ?case
  proof (cases "status seat = Held \<and> getHold s now e k = None")
    case True
    show ?thesis
    proof (cases "releaseSeat s e k")
      case (Pair res s')
      then have "consistent s'" using r by simp
      then show ?thesis using True Pair x Cons.IH[of s'] by (cases res) auto
    qed
  next
    case False
    then show ?thesis using x Cons.IH[OF Cons.prems] by (auto split: option.splits)
  qed
qed

lemma cons_getAvailableSeats:
  assumes "consistent s" shows "consistent (snd (getAvailableSeats s now e))"
proof (cases "getEvent s e")
  case (Inl err)
  then show ?thesis using assms by (simp add: getAvailableSeats_def)
next
  case (Inr ev)
  have "snd (getAvailableSeats s now e) = snd (availableLoop now e (eventSeats s e) [] s)"
    using Inr by (auto simp: getAvailableSeats_def split: prod.splits sum.splits)
  then show ?thesis using cons_availableLoop[OF assms] by simp
qed

lemma fold_hSet:
  "hGet (fold (\<lambda>n st. hSet st e n (f n)) xs s) e' n' =
     (if e' = e \<and> n' \<in> set xs then Some (f n') else hGet s e' n')"
  "events (fold (\<lambda>n st. hSet st e n (f n)) xs s) = events s"
  "seatHold (fold (\<lambda>n st. hSet st e n (f n)) xs s) = seatHold s"
  "seatReserved (fold (\<lambda>n st. hSet st e n (f n)) xs s) = seatReserved s"
  "userHolds (fold (\<lambda>n st. hSet st e n (f n)) xs s) = userHolds s"
  "distinctSeats (fold (\<lambda>n st. hSet st e n (f n)) xs s) = distinctSeats s"
  by (induction xs arbitrary: s) auto

lemma createEvent_fails:
  "nSeats < 10 \<or> nSeats > 1000 \<or> events s e \<noteq> None \<Longrightarrow> snd (createEvent s now e nSeats nm descr) = s"
  by (auto simp: createEvent_def)

lemma createEvent_succeeds:
  assumes "\<not> (nSeats < 10 \<or> nSeats > 1000 \<or> events s e \<noteq> None)"
  shows "hGet (snd (createEvent s now e nSeats nm descr)) e' n' =
           (if e' = e \<and> 1 \<le> n' \<and> n' \<le> nSeats then Some (newSeat e n') else hGet s e' n')"
    and "events (snd (createEvent s now e nSeats nm descr)) =
           (events s)(e \<mapsto> \<lparr>idE = e, name = nm, description = descr, totalSeats = nSeats,
              createdAt = now, statusE = Active\<rparr>)"
    and "seatHold (snd (createEvent s now e nSeats nm descr)) = seatHold s"
    and "seatReserved (snd (createEvent s now e nSeats nm descr)) = seatReserved s"
    and "userHolds (snd (createEvent s now e nSeats nm descr)) = userHolds s"
    and "distinctSeats (snd (createEvent s now e nSeats nm descr)) = distinctSeats s"
  using assms by (simp_all add: createEvent_def Let_def fold_hSet)

lemma seatOK_newSeat: "seatOK (newSeat e n)"
  by (simp add: seatOK_def newSeat_def)

lemma cons_createEvent:
  assumes "consistent s" shows "consistent (snd (createEvent s now e nSeats nm descr))"
proof (cases "nSeats < 10 \<or> nSeats > 1000 \<or> events s e \<noteq> None")
  case True
  then show ?thesis using assms createEvent_fails[OF True] by simp
next
  case False
  note ce = createEvent_succeeds[OF False]
  from False have none: "events s e = None" by simp
  have noseat: "hGet s e k = None" for k
    using cons_event[OF assms, of e k] none by (cases "hGet s e k") auto
  show ?thesis
  proof (rule consI)
    show "distinctSeats (snd (createEvent s now e nSeats nm descr))"
      using cons_distinct[OF assms] by (simp add: ce)
  next
    fix e' n' seat'
    assume a: "hGet (snd (createEvent s now e nSeats nm descr)) e' n' = Some seat'"
    then have d: "e' = e \<and> seat' = newSeat e n' \<or> e' \<noteq> e \<and> hGet s e' n' = Some seat'"
      using noseat by (auto simp: ce split: if_splits)
    then show "seatOK seat'"
      using seatOK_newSeat cons_seatOK[OF assms, of e' n' seat'] by auto
    show "events (snd (createEvent s now e nSeats nm descr)) e' \<noteq> None"
      using d cons_event[OF assms, of e' n' seat'] by (auto simp: ce)
  next
    fix e' n' h dl
    assume "seatHold (snd (createEvent s now e nSeats nm descr)) (e', n') = Some (h, dl)"
    then have "seatHold s (e', n') = Some (h, dl)" by (simp add: ce)
    from cons_hold[OF assms this] obtain st where st: "hGet s e' n' = Some st" "status st = Held"
      "userId st = Some (h_userId h)" by blast
    then have "e' \<noteq> e" using noseat by auto
    then show "\<exists>seat. hGet (snd (createEvent s now e nSeats nm descr)) e' n' = Some seat \<and>
        status seat = Held \<and> userId seat = Some (h_userId h)"
      using st by (simp add: ce)
  qed
qed

lemma cons_emptyStore: "consistent emptyStore"
  by (simp add: consistent_def emptyStore_def hGet_def)

lemma cons_perform: "consistent s \<Longrightarrow> consistent (perform mx s now c)"
  by (cases c)
    (simp_all add: cons_createEvent cons_holdSeat cons_reserveSeat cons_releaseSeat
      cons_refreshSeatHold cons_getAvailableSeats cons_getSeatStatus)

lemma reachable_consistent: "reachable mx s \<Longrightarrow> consistent s"
  by (induction rule: reachable.induct) (simp_all add: cons_emptyStore cons_perform)

section \<open>releaseSeat\<close>

lemma releaseSeat_idempotent_redis:
  "(hGet s e n = None \<longrightarrow> releaseSeat s e n = (Inl SeatNotFound, s)) \<and>
   (\<forall>seat. hGet s e n = Some seat \<and> status seat \<noteq> Held \<longrightarrow> releaseSeat s e n = (Inr (), s)) \<and>
   (\<forall>err. fst (releaseSeat s e n) = Inl err \<longrightarrow> err = SeatNotFound \<and> hGet s e n = None) \<and>
   (snd (releaseSeat s e n) \<noteq> s \<longrightarrow> (\<exists>seat. hGet s e n = Some seat \<and> status seat = Held)) \<and>
   releaseSeat (snd (releaseSeat s e n)) e n = (fst (releaseSeat s e n), snd (releaseSeat s e n))"
proof -
  have idem: "releaseSeat (snd (releaseSeat s e n)) e n = (fst (releaseSeat s e n), snd (releaseSeat s e n))"
  proof (cases "hGet s e n")
    case None
    then show ?thesis by (simp add: releaseSeat_def)
  next
    case (Some seat)
    show ?thesis
    proof (cases "status seat = Held")
      case True
      have "hGet (snd (releaseSeat s e n)) e n =
          Some (seat\<lparr>status := Available, userId := None, heldAt := None\<rparr>)"
        using Some True
        by (simp add: releaseSeat_def Let_def hGet_def hSet_def delHold_def sRem_def update_conv')
      moreover have "fst (releaseSeat s e n) = Inr ()"
        using Some True by (simp add: releaseSeat_def Let_def)
      ultimately show ?thesis by (simp add: releaseSeat_def)
    next
      case False
      then show ?thesis using Some by (simp add: releaseSeat_def)
    qed
  qed
  show ?thesis
    using idem by (auto simp: releaseSeat_def Let_def split: option.splits if_splits)
qed


section \<open>holdSeat\<close>

text \<open>
  C10. A hold that fails because the event is missing, the seat number is outside
  1..totalSeats, the seat has no record, the seat is not available or the holder has
  reached the quota returns the store it was given: seat records, hold keys and the sets
  of held seats are all as before the call.
\<close>

theorem holdSeat_error_no_write:
  "(events s e = None \<longrightarrow> holdSeat mx s now e n u d = (Inl EventNotFound, s)) \<and>
   (\<forall>ev. events s e = Some ev \<and> (n < 1 \<or> n > totalSeats ev) \<longrightarrow>
      holdSeat mx s now e n u d = (Inl InvalidSeatNumber, s)) \<and>
   (\<forall>ev. events s e = Some ev \<and> 1 \<le> n \<and> n \<le> totalSeats ev \<and> hGet s e n = None \<longrightarrow>
      holdSeat mx s now e n u d = (Inl SeatNotFound, s)) \<and>
   (\<forall>ev seat. events s e = Some ev \<and> 1 \<le> n \<and> n \<le> totalSeats ev \<and> hGet s e n = Some seat \<and>
      status seat \<noteq> Available \<longrightarrow> holdSeat mx s now e n u d = (Inl SeatNotAvailable, s)) \<and>
   (\<forall>ev seat. events s e = Some ev \<and> 1 \<le> n \<and> n \<le> totalSeats ev \<and> hGet s e n = Some seat \<and>
      status seat = Available \<and> quotaReached (getUserHoldCount s e u) mx \<longrightarrow>
      holdSeat mx s now e n u d = (Inl MaxHoldsReached, s)) \<and>
   (\<forall>err. fst (holdSeat mx s now e n u d) = Inl err \<and>
      err \<in> {EventNotFound, InvalidSeatNumber, SeatNotFound, SeatNotAvailable, MaxHoldsReached} \<longrightarrow>
      snd (holdSeat mx s now e n u d) = s)"
  by (auto simp: holdSeat_def getEvent_def Let_def split: option.splits if_splits)

theorem holdSeat_error_no_write_witness:
  "fst (holdSeat (Some 2) heldStore 2000 ''e'' 3 ''b'' 60) = Inl SeatNotAvailable \<and>
   SeatNotAvailable \<in> {EventNotFound, InvalidSeatNumber, SeatNotFound, SeatNotAvailable, MaxHoldsReached} \<and>
   snd (holdSeat (Some 2) heldStore 2000 ''e'' 3 ''b'' 60) = heldStore"
proof -
  have a: "fst (holdSeat (Some 2) heldStore 2000 ''e'' 3 ''b'' 60) = Inl SeatNotAvailable"
    by code_simp
  from holdSeat_error_no_write [of heldStore "''e''" "Some 2" 2000 3 "''b''" 60] a
  show ?thesis by blast
qed

section \<open>The example stores are reachable\<close>

lemma reachable_freshStore: "reachable (Some 2) freshStore"
  unfolding freshStore_def by (intro reachable.intros)

lemma reachable_heldStore: "reachable (Some 2) heldStore"
  unfolding heldStore_def by (intro reachable.intros reachable_freshStore)


section \<open>The fields of a seat record\<close>




section \<open>reserveSeat\<close>

lemma getHold_stored:
  "getHold s now e n = Some h \<Longrightarrow> \<exists>dl. seatHold s (e, n) = Some (h, dl)"
  by (auto simp: getHold_def split: option.splits if_splits)

lemma reserveSeat_ok:
  assumes "getHold s now e n = Some h" "h_userId h = u" "\<not> expiresAt h < now"
    "hGet s e n = Some seat"
  shows "reserveSeat s now e n u =
     (Inr \<lparr>r_eventId = e, r_seatNumber = n, r_userId = u, r_reservedAt = now\<rparr>,
      sRem ((delHold (hSet s e n (seat\<lparr>status := Reserved, reservedAt := Some now\<rparr>)) e n)
        \<lparr>seatReserved := (seatReserved s)((e, n) \<mapsto>
           \<lparr>r_eventId = e, r_seatNumber = n, r_userId = u, r_reservedAt = now\<rparr>)\<rparr>) u e n)"
  using assms by (simp add: reserveSeat_def Let_def)

lemma reserveSeat_errors:
  "fst (reserveSeat s now e n u) = Inl err \<Longrightarrow>
   err \<in> {SeatNotFound, SeatNotHeld, SeatHeldByAnotherUser, SeatHoldExpired}"
  by (auto simp: reserveSeat_def releaseSeat_def Let_def split: option.splits if_splits prod.splits sum.splits)

lemma reserveSeat_iff_live_own_hold_redis:
  assumes "reachable mx s"
  shows "((\<exists>r. fst (reserveSeat s now e n u) = Inr r) \<longleftrightarrow>
           (\<exists>h. getHold s now e n = Some h \<and> h_userId h = u \<and> \<not> expiresAt h < now)) \<and>
         (\<forall>r. fst (reserveSeat s now e n u) = Inr r \<longrightarrow>
            r = \<lparr>r_eventId = e, r_seatNumber = n, r_userId = u, r_reservedAt = now\<rparr> \<and>
            (\<exists>seat. hGet s e n = Some seat \<and> status seat = Held \<and> userId seat = Some u \<and>
               hGet (snd (reserveSeat s now e n u)) e n =
                 Some (seat\<lparr>status := Reserved, reservedAt := Some now\<rparr>)) \<and>
            seatHold (snd (reserveSeat s now e n u)) (e, n) = None \<and>
            n |\<notin>| userHolds (snd (reserveSeat s now e n u)) (u, e) \<and>
            seatReserved (snd (reserveSeat s now e n u)) (e, n) = Some r) \<and>
         (\<forall>err. fst (reserveSeat s now e n u) = Inl err \<longrightarrow>
            err \<in> {SeatNotFound, SeatNotHeld, SeatHeldByAnotherUser, SeatHoldExpired})"
proof -
  have c: "consistent s" using assms by (rule reachable_consistent)
  have ok: "\<exists>seat. hGet s e n = Some seat \<and> status seat = Held \<and> userId seat = Some u"
    if "getHold s now e n = Some h" "h_userId h = u" for h
  proof -
    from getHold_stored[OF that(1)] obtain dl where "seatHold s (e, n) = Some (h, dl)" by blast
    from cons_hold[OF c this] that(2) show ?thesis by simp
  qed
  have iff: "(\<exists>r. fst (reserveSeat s now e n u) = Inr r) \<longleftrightarrow>
           (\<exists>h. getHold s now e n = Some h \<and> h_userId h = u \<and> \<not> expiresAt h < now)"
  proof
    assume "\<exists>r. fst (reserveSeat s now e n u) = Inr r"
    then show "\<exists>h. getHold s now e n = Some h \<and> h_userId h = u \<and> \<not> expiresAt h < now"
      by (auto simp: reserveSeat_def Let_def split: option.splits if_splits prod.splits sum.splits)
  next
    assume "\<exists>h. getHold s now e n = Some h \<and> h_userId h = u \<and> \<not> expiresAt h < now"
    then obtain h where h: "getHold s now e n = Some h" "h_userId h = u" "\<not> expiresAt h < now"
      by blast
    from ok[OF h(1,2)] obtain seat where "hGet s e n = Some seat" by blast
    from reserveSeat_ok[OF h this] show "\<exists>r. fst (reserveSeat s now e n u) = Inr r" by simp
  qed
  have eff: "r = \<lparr>r_eventId = e, r_seatNumber = n, r_userId = u, r_reservedAt = now\<rparr> \<and>
            (\<exists>seat. hGet s e n = Some seat \<and> status seat = Held \<and> userId seat = Some u \<and>
               hGet (snd (reserveSeat s now e n u)) e n =
                 Some (seat\<lparr>status := Reserved, reservedAt := Some now\<rparr>)) \<and>
            seatHold (snd (reserveSeat s now e n u)) (e, n) = None \<and>
            n |\<notin>| userHolds (snd (reserveSeat s now e n u)) (u, e) \<and>
            seatReserved (snd (reserveSeat s now e n u)) (e, n) = Some r"
    if r: "fst (reserveSeat s now e n u) = Inr r" for r
  proof -
    from r iff obtain h where h: "getHold s now e n = Some h" "h_userId h = u"
      "\<not> expiresAt h < now" by blast
    from ok[OF h(1,2)] obtain seat where seat: "hGet s e n = Some seat" "status seat = Held"
      "userId seat = Some u" by blast
    note eq = reserveSeat_ok[OF h seat(1)]
    show ?thesis using r seat unfolding eq by simp
  qed
  show ?thesis using iff eff reserveSeat_errors[of s now e n u] by blast
qed


section \<open>The quota\<close>







section \<open>getAvailableSeats\<close>

lemma releaseSeat_held:
  assumes "hGet s e n = Some seat" "status seat = Held"
  shows "fst (releaseSeat s e n) = Inr ()"
    and "hGet (snd (releaseSeat s e n)) e' n' =
           (if e' = e \<and> n' = n then Some (released seat) else hGet s e' n')"
    and "seatHold (snd (releaseSeat s e n)) = (seatHold s)((e, n) := None)"
    and "events (snd (releaseSeat s e n)) = events s"
    and "seatReserved (snd (releaseSeat s e n)) = seatReserved s"
    and "userHolds (snd (releaseSeat s e n)) =
           (if truthy (userId seat)
            then (userHolds s)((the (userId seat), e) := userHolds s (the (userId seat), e) |-| {|n|})
            else userHolds s)"
  using assms by (simp_all add: releaseSeat_def Let_def released_def)

lemma getHold_releaseSeat_other:
  "\<not> (e' = e \<and> n' = n) \<Longrightarrow> getHold (snd (releaseSeat s e n)) now e' n' = getHold s now e' n'"
  by (auto simp: getHold_def releaseSeat_def Let_def split: option.splits)

lemma filter_listed_cong:
  assumes "\<And>k seat. (k, seat) \<in> set xs \<Longrightarrow> getHold s' now e k = getHold s now e k"
  shows "filter (listed s' now e) xs = filter (listed s now e) xs"
    and "filter (expiredHeld s' now e) xs = filter (expiredHeld s now e) xs"
  using assms by (auto intro!: filter_cong simp: listed_def expiredHeld_def)

lemma availableLoop_result:
  assumes "distinct (map fst xs)" and "\<And>k seat. (k, seat) \<in> set xs \<Longrightarrow> hGet s e k = Some seat"
  shows "fst (availableLoop now e xs acc s) = Inr (acc @ map fst (filter (listed s now e) xs))"
  using assms
proof (induction xs arbitrary: acc s)
  case Nil
  then show ?case by simp
next
  case (Cons x xs)
  obtain k seat where x: "x = (k, seat)" by (cases x)
  have d: "distinct (map fst xs)" and knot: "k \<notin> fst ` set xs" using Cons.prems(1) x by auto
  have seat: "hGet s e k = Some seat" using Cons.prems(2)[of k seat] x by simp
  have rest: "\<And>k' seat'. (k', seat') \<in> set xs \<Longrightarrow> hGet s e k' = Some seat'"
    using Cons.prems(2) by simp
  show ?case
  proof (cases "expiredHeld s now e (k, seat)")
    case True
    then have held: "status seat = Held" and nohold: "getHold s now e k = None"
      by (simp_all add: expiredHeld_def)
    note rel = releaseSeat_held[OF seat held]
    obtain s' where s': "releaseSeat s e k = (Inr (), s')"
      using rel(1) by (cases "releaseSeat s e k") auto
    have s'eq: "s' = snd (releaseSeat s e k)" using s' by simp
    have ne: "k' \<noteq> k" if "(k', seat') \<in> set xs" for k' seat'
      using knot that by force
    have rest': "\<And>k' seat'. (k', seat') \<in> set xs \<Longrightarrow> hGet s' e k' = Some seat'"
      using rest ne by (simp add: s'eq rel(2))
    have "filter (listed s' now e) xs = filter (listed s now e) xs"
      by (rule filter_listed_cong) (use ne in \<open>simp add: s'eq getHold_releaseSeat_other\<close>)
    moreover have "listed s now e (k, seat)" using True by (simp add: listed_def)
    ultimately show ?thesis
      using Cons.IH[OF d rest', of "acc @ [k]"] held nohold s' x
      by simp
  next
    case False
    then have l: "listed s now e (k, seat) = (status seat = Available)"
      by (simp add: listed_def)
    have "status seat = Held \<Longrightarrow> getHold s now e k \<noteq> None"
      using False by (simp add: expiredHeld_def)
    then show ?thesis
      using Cons.IH[OF d rest] x l
      by (auto split: option.splits)
  qed
qed

lemma availableLoop_seats:
  assumes "distinct (map fst xs)" and "\<And>k seat. (k, seat) \<in> set xs \<Longrightarrow> hGet s e k = Some seat"
  shows "hGet (snd (availableLoop now e xs acc s)) e' n' =
     (if e' = e \<and> (\<exists>seat. (n', seat) \<in> set xs \<and> expiredHeld s now e (n', seat))
      then map_option released (hGet s e n') else hGet s e' n')"
  using assms
proof (induction xs arbitrary: acc s)
  case Nil
  then show ?case by simp
next
  case (Cons x xs)
  obtain k seat where x: "x = (k, seat)" by (cases x)
  have d: "distinct (map fst xs)" and knot: "k \<notin> fst ` set xs" using Cons.prems(1) x by auto
  have seat: "hGet s e k = Some seat" using Cons.prems(2)[of k seat] x by simp
  have rest: "\<And>k' seat'. (k', seat') \<in> set xs \<Longrightarrow> hGet s e k' = Some seat'"
    using Cons.prems(2) by simp
  have ne: "k' \<noteq> k" if "(k', seat') \<in> set xs" for k' seat'
    using knot that by force
  show ?case
  proof (cases "expiredHeld s now e (k, seat)")
    case True
    then have held: "status seat = Held" and nohold: "getHold s now e k = None"
      by (simp_all add: expiredHeld_def)
    note rel = releaseSeat_held[OF seat held]
    obtain s' where s': "releaseSeat s e k = (Inr (), s')"
      using rel(1) by (cases "releaseSeat s e k") auto
    have s'eq: "s' = snd (releaseSeat s e k)" using s' by simp
    have rest': "\<And>k' seat'. (k', seat') \<in> set xs \<Longrightarrow> hGet s' e k' = Some seat'"
      using rest ne by (simp add: s'eq rel(2))
    have ex: "expiredHeld s' now e (k', seat') = expiredHeld s now e (k', seat')"
      if "(k', seat') \<in> set xs" for k' seat'
      using ne[OF that] by (simp add: expiredHeld_def s'eq getHold_releaseSeat_other)
    have "hGet (snd (availableLoop now e (x # xs) acc s)) e' n' =
        hGet (snd (availableLoop now e xs (acc @ [k]) s')) e' n'"
      using held nohold s' x by simp
    also have "\<dots> = (if e' = e \<and> (\<exists>seat. (n', seat) \<in> set xs \<and> expiredHeld s' now e (n', seat))
      then map_option released (hGet s' e n') else hGet s' e' n')"
      by (rule Cons.IH[OF d rest'])
    also have "\<dots> = (if e' = e \<and> (\<exists>seat. (n', seat) \<in> set (x # xs) \<and> expiredHeld s now e (n', seat))
      then map_option released (hGet s e n') else hGet s e' n')"
      using True seat ne ex by (auto simp: x s'eq rel(2))
    finally show ?thesis .
  next
    case False
    have "hGet (snd (availableLoop now e (x # xs) acc s)) e' n' =
        hGet (snd (availableLoop now e xs (if status seat = Available then acc @ [k] else acc) s)) e' n'"
      using False x by (auto simp: expiredHeld_def split: option.splits)
    also have "\<dots> = (if e' = e \<and> (\<exists>seat. (n', seat) \<in> set xs \<and> expiredHeld s now e (n', seat))
      then map_option released (hGet s e n') else hGet s e' n')"
      by (rule Cons.IH[OF d rest])
    also have "\<dots> = (if e' = e \<and> (\<exists>seat. (n', seat) \<in> set (x # xs) \<and> expiredHeld s now e (n', seat))
      then map_option released (hGet s e n') else hGet s e' n')"
      using False by (auto simp: x)
    finally show ?thesis .
  qed
qed


lemma hGet_mem:
  "distinctSeats s \<Longrightarrow> (hGet s e n = Some seat) = ((n, seat) \<in> set (eventSeats s e))"
  by (simp add: hGet_def distinctSeats_def)

lemma status_released [simp]: "status (released seat) = Available"
  by (simp add: released_def)

text \<open>
  C9. For an existing event in a reachable store, getAvailableSeats returns a strictly
  ascending list whose members are exactly the seat numbers with a record that is
  available, or held with no served hold key; after the call every listed seat is
  available in the store. A reserved seat and a held seat whose hold key is served are not
  listed and their records are unchanged.
\<close>

theorem getAvailableSeats_exact:
  assumes "reachable mx s" and "events s e \<noteq> None"
  shows "\<exists>ns. fst (getAvailableSeats s now e) = Inr ns \<and> sorted ns \<and> distinct ns \<and>
     set ns = {n. \<exists>seat. hGet s e n = Some seat \<and>
       (status seat = Available \<or> status seat = Held \<and> getHold s now e n = None)} \<and>
     (\<forall>n\<in>set ns. seatStatus (snd (getAvailableSeats s now e)) e n = Some Available) \<and>
     (\<forall>n seat. hGet s e n = Some seat \<and>
        (status seat = Reserved \<or> status seat = Held \<and> getHold s now e n \<noteq> None) \<longrightarrow>
        n \<notin> set ns \<and> hGet (snd (getAvailableSeats s now e)) e n = Some seat)"
proof -
  define xs where "xs = eventSeats s e"
  define ks where "ks = map fst (filter (listed s now e) xs)"
  have ds: "distinctSeats s" using assms(1) by (intro cons_distinct reachable_consistent)
  have d: "distinct (map fst xs)" using ds by (simp add: distinctSeats_def xs_def)
  have mem: "\<And>k seat. (k, seat) \<in> set xs \<Longrightarrow> hGet s e k = Some seat"
    using ds by (simp add: hGet_mem xs_def)
  have loop: "fst (availableLoop now e xs [] s) = Inr ks"
    using availableLoop_result[OF d mem, of now "[]"] by (simp add: ks_def)
  obtain ev where ev: "getEvent s e = Inr ev"
    using assms(2) by (auto simp: getEvent_def)
  have res: "fst (getAvailableSeats s now e) = Inr (sort ks)"
    and st: "snd (getAvailableSeats s now e) = snd (availableLoop now e xs [] s)"
    using loop ev by (auto simp: getAvailableSeats_def xs_def split: prod.splits sum.splits)
  have seats: "\<And>n'. hGet (snd (getAvailableSeats s now e)) e n' =
     (if \<exists>seat. (n', seat) \<in> set xs \<and> expiredHeld s now e (n', seat)
      then map_option released (hGet s e n') else hGet s e n')"
    using availableLoop_seats[OF d mem, of now "[]" e] by (simp add: st)
  have setks: "set ks = {n. \<exists>seat. hGet s e n = Some seat \<and>
       (status seat = Available \<or> status seat = Held \<and> getHold s now e n = None)}"
    using ds by (force simp: ks_def hGet_mem xs_def listed_def expiredHeld_def)
  have dks: "distinct ks"
    unfolding ks_def using d by (rule distinct_map_filter)
  have post: "seatStatus (snd (getAvailableSeats s now e)) e n = Some Available" if "n \<in> set ks" for n
  proof -
    from that setks obtain seat where seat: "hGet s e n = Some seat"
      "status seat = Available \<or> status seat = Held \<and> getHold s now e n = None" by blast
    then have m: "(n, seat) \<in> set xs" using ds by (simp add: hGet_mem xs_def)
    show ?thesis
    proof (cases "\<exists>seat. (n, seat) \<in> set xs \<and> expiredHeld s now e (n, seat)")
      case True
      then show ?thesis using seat(1) by (simp add: seatStatus_def seats)
    next
      case False
      then have "status seat = Available" using seat(2) m by (auto simp: expiredHeld_def)
      then show ?thesis using False seat(1) by (simp add: seatStatus_def seats)
    qed
  qed
  have excl: "n \<notin> set ks \<and> hGet (snd (getAvailableSeats s now e)) e n = Some seat"
    if "hGet s e n = Some seat" "status seat = Reserved \<or> status seat = Held \<and> getHold s now e n \<noteq> None"
    for n seat
  proof -
    have ne: "\<not> (\<exists>seat'. (n, seat') \<in> set xs \<and> expiredHeld s now e (n, seat'))"
      using that mem by (auto simp: expiredHeld_def)
    have "hGet (snd (getAvailableSeats s now e)) e n = hGet s e n"
      unfolding seats using ne by (rule if_not_P)
    then have "hGet (snd (getAvailableSeats s now e)) e n = Some seat"
      using that(1) by simp
    moreover have "n \<notin> set ks" using that by (auto simp: setks)
    ultimately show ?thesis by simp
  qed
  show ?thesis
  proof (intro exI conjI)
    show "fst (getAvailableSeats s now e) = Inr (sort ks)" by (rule res)
    show "sorted (sort ks)" by simp
    show "distinct (sort ks)" using dks by simp
    show "set (sort ks) = {n. \<exists>seat. hGet s e n = Some seat \<and>
       (status seat = Available \<or> status seat = Held \<and> getHold s now e n = None)}"
      using setks by simp
    show "\<forall>n\<in>set (sort ks). seatStatus (snd (getAvailableSeats s now e)) e n = Some Available"
      using post by simp
    show "\<forall>n seat. hGet s e n = Some seat \<and>
        (status seat = Reserved \<or> status seat = Held \<and> getHold s now e n \<noteq> None) \<longrightarrow>
        n \<notin> set (sort ks) \<and> hGet (snd (getAvailableSeats s now e)) e n = Some seat"
    proof (intro allI impI)
      fix n seat
      assume "hGet s e n = Some seat \<and>
        (status seat = Reserved \<or> status seat = Held \<and> getHold s now e n \<noteq> None)"
      then show "n \<notin> set (sort ks) \<and> hGet (snd (getAvailableSeats s now e)) e n = Some seat"
        using excl[of n seat] by simp
    qed
  qed
qed

theorem getAvailableSeats_exact_witness:
  "reachable (Some 2) heldStore \<and> events heldStore ''e'' \<noteq> None \<and>
   fst (getAvailableSeats heldStore 2000 ''e'') = Inr [1, 2, 4, 5, 6, 7, 8, 9, 10] \<and>
   fst (getAvailableSeats heldStore 200000 ''e'') = Inr [1, 2, 3, 4, 5, 6, 7, 8, 9, 10] \<and>
   seatStatus (snd (getAvailableSeats heldStore 200000 ''e'')) ''e'' 3 = Some Available"
proof -
  have a: "events heldStore ''e'' \<noteq> None" by code_simp
  have b: "fst (getAvailableSeats heldStore 2000 ''e'') = Inr [1, 2, 4, 5, 6, 7, 8, 9, 10]"
    by code_simp
  have c: "fst (getAvailableSeats heldStore 200000 ''e'') = Inr [1, 2, 3, 4, 5, 6, 7, 8, 9, 10]"
    by code_simp
  from getAvailableSeats_exact [OF reachable_heldStore a, of 200000] c
  have "seatStatus (snd (getAvailableSeats heldStore 200000 ''e'')) ''e'' 3 = Some Available"
    by auto
  then show ?thesis using reachable_heldStore a b c by simp
qed

section \<open>Reconciling a hold whose key has expired\<close>














section \<open>The life cycle of a seat\<close>

lemma sameOrReleased_refl [simp]: "sameOrReleased x x"
  by (simp add: sameOrReleased_def)


















section \<open>Hold calls on one seat\<close>

text \<open>Run alone, with one clock reading, the steps of a call are holdSeat.\<close>

lemma holdStep_sequential:
  "(case holdStep mx c now AtGetEvent s of (p1, s1) \<Rightarrow>
    case holdStep mx c now p1 s1 of (p2, s2) \<Rightarrow>
    case holdStep mx c now p2 s2 of (p3, s3) \<Rightarrow>
    case holdStep mx c now p3 s3 of (p4, s4) \<Rightarrow>
    case holdStep mx c now p4 s4 of (p5, s5) \<Rightarrow>
    holdStep mx c now p5 s5) =
   (Returned (fst (holdSeat mx s now (c_eventId c) (c_seatNumber c) (c_userId c) (c_holdDuration c))),
    snd (holdSeat mx s now (c_eventId c) (c_seatNumber c) (c_userId c) (c_holdDuration c)))"
  by (auto simp: holdSeat_def Let_def split: sum.splits option.splits)












section \<open>Consistency of the stores of EnhancedSeatService\<close>

lemma econsI:
  assumes "\<And>e n seat. seatsTable s (e, n) = Some seat \<Longrightarrow> seatOK seat"
    and "\<And>e n seat. seatsTable s (e, n) = Some seat \<Longrightarrow> eventsTable s e \<noteq> None"
    and "\<And>e n h dl. holdKeys s (e, n) = Some (h, dl) \<Longrightarrow>
         \<exists>seat. seatsTable s (e, n) = Some seat \<and> status seat = Held \<and> userId seat = Some (h_userId h)"
    and "\<And>e n r. reservationsTable s (e, n) = Some r \<Longrightarrow>
         \<exists>seat. seatsTable s (e, n) = Some seat \<and> status seat = Reserved"
  shows "enhancedConsistent s"
  unfolding enhancedConsistent_def
proof (intro conjI allI impI)
  fix e n seat assume a: "seatsTable s (e, n) = Some seat"
  show "seatOK seat" using a by (rule assms(1))
  show "eventsTable s e \<noteq> None" using a by (rule assms(2))
next
  fix e n h dl assume "holdKeys s (e, n) = Some (h, dl)"
  then show "\<exists>seat. seatsTable s (e, n) = Some seat \<and> status seat = Held \<and>
      userId seat = Some (h_userId h)" by (rule assms(3))
next
  fix e n r assume "reservationsTable s (e, n) = Some r"
  then show "\<exists>seat. seatsTable s (e, n) = Some seat \<and> status seat = Reserved" by (rule assms(4))
qed

lemma econs_seatOK: "enhancedConsistent s \<Longrightarrow> seatsTable s (e, n) = Some seat \<Longrightarrow> seatOK seat"
  by (simp add: enhancedConsistent_def)

lemma econs_event:
  "enhancedConsistent s \<Longrightarrow> seatsTable s (e, n) = Some seat \<Longrightarrow> eventsTable s e \<noteq> None"
  by (simp add: enhancedConsistent_def)

lemma econs_hold: "enhancedConsistent s \<Longrightarrow> holdKeys s (e, n) = Some (h, dl) \<Longrightarrow>
  \<exists>seat. seatsTable s (e, n) = Some seat \<and> status seat = Held \<and> userId seat = Some (h_userId h)"
  by (simp add: enhancedConsistent_def)

lemma econs_reservation: "enhancedConsistent s \<Longrightarrow> reservationsTable s (e, n) = Some r \<Longrightarrow>
  \<exists>seat. seatsTable s (e, n) = Some seat \<and> status seat = Reserved"
  by (simp add: enhancedConsistent_def)

lemma econs_single_seat:
  assumes c: "enhancedConsistent s"
    and ev: "\<And>e'. eventsTable s e' \<noteq> None \<Longrightarrow> eventsTable s' e' \<noteq> None"
    and others: "\<And>k. k \<noteq> (e, n) \<Longrightarrow> seatsTable s' k = seatsTable s k \<and>
        holdKeys s' k = holdKeys s k \<and> reservationsTable s' k = reservationsTable s k"
    and v: "seatsTable s' (e, n) = Some v" "seatOK v" "eventsTable s e \<noteq> None"
    and l: "\<And>h dl. holdKeys s' (e, n) = Some (h, dl) \<Longrightarrow>
              status v = Held \<and> userId v = Some (h_userId h)"
    and r: "\<And>r. reservationsTable s' (e, n) = Some r \<Longrightarrow> status v = Reserved"
  shows "enhancedConsistent s'"
proof (rule econsI)
  fix e' n' seat'
  assume a: "seatsTable s' (e', n') = Some seat'"
  show "seatOK seat'"
  proof (cases "(e', n') = (e, n)")
    case True
    then show ?thesis using a v by simp
  next
    case False
    then show ?thesis using a others[OF False] econs_seatOK[OF c, of e' n' seat'] by simp
  qed
  show "eventsTable s' e' \<noteq> None"
  proof (cases "(e', n') = (e, n)")
    case True
    then show ?thesis using v(3) ev by simp
  next
    case False
    then have "seatsTable s (e', n') = Some seat'" using a others[OF False] by simp
    then show ?thesis using econs_event[OF c, of e' n' seat'] ev by simp
  qed
next
  fix e' n' h dl
  assume a: "holdKeys s' (e', n') = Some (h, dl)"
  show "\<exists>seat. seatsTable s' (e', n') = Some seat \<and> status seat = Held \<and>
      userId seat = Some (h_userId h)"
  proof (cases "(e', n') = (e, n)")
    case True
    then show ?thesis using a l[of h dl] v(1) by simp
  next
    case False
    then have "holdKeys s (e', n') = Some (h, dl)" using a others[OF False] by simp
    from econs_hold[OF c this] show ?thesis using others[OF False] by simp
  qed
next
  fix e' n' r'
  assume a: "reservationsTable s' (e', n') = Some r'"
  show "\<exists>seat. seatsTable s' (e', n') = Some seat \<and> status seat = Reserved"
  proof (cases "(e', n') = (e, n)")
    case True
    then show ?thesis using a r[of r'] v(1) by simp
  next
    case False
    then have "reservationsTable s (e', n') = Some r'" using a others[OF False] by simp
    from econs_reservation[OF c this] show ?thesis using others[OF False] by simp
  qed
qed


lemma econs_releaseSeat:
  assumes "enhancedConsistent s" shows "enhancedConsistent (snd (enhancedReleaseSeat s e n))"
proof (cases "seatsTable s (e, n)")
  case None
  then show ?thesis using assms by (simp add: enhancedReleaseSeat_def)
next
  case (Some seat)
  show ?thesis
  proof (cases "status seat = Held")
    case False
    then show ?thesis using assms Some by (simp add: enhancedReleaseSeat_def)
  next
    case True
    have ok: "seatOK seat" using assms Some by (rule econs_seatOK)
    have nores: "reservationsTable s (e, n) = None"
      using econs_reservation[OF assms, of e n] Some True
      by (cases "reservationsTable s (e, n)") auto
    show ?thesis
    proof (rule econs_single_seat[OF assms, where e = e and n = n])
      show "seatOK (seat\<lparr>status := Available, userId := None, heldAt := None\<rparr>)"
        using ok True by (simp add: seatOK_def)
      show "eventsTable s e \<noteq> None" using assms Some by (rule econs_event)
    qed (use Some True nores in \<open>auto simp: enhancedReleaseSeat_def Let_def split: if_splits\<close>)
  qed
qed

lemma enhancedHoldSeat_unchanged_or_held:
  "(seatsTable (snd (enhancedHoldSeat mx s now e n u d)) = seatsTable s \<and>
    holdKeys (snd (enhancedHoldSeat mx s now e n u d)) = holdKeys s \<and>
    reservationsTable (snd (enhancedHoldSeat mx s now e n u d)) = reservationsTable s \<and>
    eventsTable (snd (enhancedHoldSeat mx s now e n u d)) = eventsTable s) \<or>
   (\<exists>seat. seatsTable s (e, n) = Some seat \<and> status seat = Available \<and>
      seatsTable (snd (enhancedHoldSeat mx s now e n u d)) =
        (seatsTable s)((e, n) \<mapsto> seat\<lparr>status := Held, userId := Some u, heldAt := Some now\<rparr>) \<and>
      holdKeys (snd (enhancedHoldSeat mx s now e n u d)) =
        (holdKeys s)((e, n) \<mapsto> (\<lparr>h_eventId = e, h_seatNumber = n, h_userId = u,
           h_heldAt = now, expiresAt = now + d * 1000\<rparr>, now + d * 1000)) \<and>
      reservationsTable (snd (enhancedHoldSeat mx s now e n u d)) = reservationsTable s \<and>
      eventsTable (snd (enhancedHoldSeat mx s now e n u d)) = eventsTable s)"
  by (auto simp: enhancedHoldSeat_def acquireLock_def holdTransaction_def releaseLock_def
      Let_def split: option.splits)

lemma econs_lockKeys:
  "enhancedConsistent (s\<lparr>lockKeys := l\<rparr>) = enhancedConsistent s"
  by (simp add: enhancedConsistent_def)

lemma econs_holdSeat:
  assumes "enhancedConsistent s" shows "enhancedConsistent (snd (enhancedHoldSeat mx s now e n u d))"
proof -
  let ?s' = "snd (enhancedHoldSeat mx s now e n u d)"
  from enhancedHoldSeat_unchanged_or_held[of mx s now e n u d]
  consider (same) "seatsTable ?s' = seatsTable s" "holdKeys ?s' = holdKeys s"
      "reservationsTable ?s' = reservationsTable s" "eventsTable ?s' = eventsTable s"
    | (held) seat where "seatsTable s (e, n) = Some seat" "status seat = Available"
      "seatsTable ?s' =
        (seatsTable s)((e, n) \<mapsto> seat\<lparr>status := Held, userId := Some u, heldAt := Some now\<rparr>)"
      "holdKeys ?s' =
        (holdKeys s)((e, n) \<mapsto> (\<lparr>h_eventId = e, h_seatNumber = n, h_userId = u,
           h_heldAt = now, expiresAt = now + d * 1000\<rparr>, now + d * 1000))"
      "reservationsTable ?s' = reservationsTable s" "eventsTable ?s' = eventsTable s"
    by blast
  then show ?thesis
  proof cases
    case same
    then show ?thesis using assms by (simp add: enhancedConsistent_def)
  next
    case held
    have ok: "seatOK seat" using assms held(1) by (rule econs_seatOK)
    have nores: "reservationsTable s (e, n) = None"
      using econs_reservation[OF assms, of e n] held(1,2)
      by (cases "reservationsTable s (e, n)") auto
    show ?thesis
    proof (rule econs_single_seat[OF assms, where e = e and n = n])
      show "seatOK (seat\<lparr>status := Held, userId := Some u, heldAt := Some now\<rparr>)"
        using ok held(2) by (simp add: seatOK_def)
      show "eventsTable s e \<noteq> None" using assms held(1) by (rule econs_event)
    qed (use held nores in \<open>auto\<close>)
  qed
qed

lemma enhancedGetHold_stored:
  "enhancedGetHold s now e n = Some h \<Longrightarrow> \<exists>dl. holdKeys s (e, n) = Some (h, dl)"
  by (auto simp: enhancedGetHold_def split: option.splits if_splits)

lemma enhancedReserveSeat_ok:
  assumes "enhancedGetHold s now e n = Some h" "h_userId h = u" "\<not> expiresAt h < now"
    "seatsTable s (e, n) = Some seat" "reservationsTable s (e, n) = None" "eventsTable s e \<noteq> None"
  shows "enhancedReserveSeat s now e n u =
     (Inr \<lparr>r_eventId = e, r_seatNumber = n, r_userId = u, r_reservedAt = now\<rparr>,
      s\<lparr>seatsTable := (seatsTable s)((e, n) \<mapsto> seat\<lparr>status := Reserved, reservedAt := Some now\<rparr>),
         reservationsTable := (reservationsTable s)((e, n) \<mapsto>
           \<lparr>r_eventId = e, r_seatNumber = n, r_userId = u, r_reservedAt = now\<rparr>),
         holdKeys := (holdKeys s)((e, n) := None),
         userHoldSets := (userHoldSets s)((u, e) := userHoldSets s (u, e) |-| {|n|})\<rparr>)"
  using assms by (auto simp: enhancedReserveSeat_def Let_def)

lemma econs_reserveSeat:
  assumes "enhancedConsistent s" shows "enhancedConsistent (snd (enhancedReserveSeat s now e n u))"
proof (cases "\<exists>err. enhancedReserveSeat s now e n u = (Inl err, s)")
  case True
  then show ?thesis using assms by auto
next
  case False
  note nf = this
  then obtain hold where hold: "enhancedGetHold s now e n = Some hold" "h_userId hold = u"
    by (auto simp: enhancedReserveSeat_def split: option.splits if_splits)
  show ?thesis
  proof (cases "expiresAt hold < now")
    case True
    then have "snd (enhancedReserveSeat s now e n u) = snd (enhancedReleaseSeat s e n)"
      using hold by (auto simp: enhancedReserveSeat_def split: prod.splits sum.splits)
    then show ?thesis using econs_releaseSeat[OF assms] by simp
  next
    case False
    obtain dl where "holdKeys s (e, n) = Some (hold, dl)"
      using enhancedGetHold_stored[OF hold(1)] by blast
    from econs_hold[OF assms this] obtain seat where seat: "seatsTable s (e, n) = Some seat"
      "status seat = Held" by blast
    have ok: "seatOK seat" using assms seat(1) by (rule econs_seatOK)
    have ev: "eventsTable s e \<noteq> None" using assms seat(1) by (rule econs_event)
    have nores: "reservationsTable s (e, n) = None"
      using econs_reservation[OF assms, of e n] seat
      by (cases "reservationsTable s (e, n)") auto
    note eq = enhancedReserveSeat_ok[OF hold False seat(1) nores ev]
    show ?thesis
    proof (rule econs_single_seat[OF assms, where e = e and n = n])
      show "seatOK (seat\<lparr>status := Reserved, reservedAt := Some now\<rparr>)"
        using ok seat(2) by (simp add: seatOK_def)
      show "eventsTable s e \<noteq> None" by (rule ev)
    qed (auto simp: eq)
  qed
qed

lemma econs_refreshSeatHold:
  assumes "enhancedConsistent s"
  shows "enhancedConsistent (snd (enhancedRefreshSeatHold s now e n u d))"
proof (cases "\<exists>err. enhancedRefreshSeatHold s now e n u d = (Inl err, s)")
  case True
  then show ?thesis using assms by auto
next
  case False
  note nf = this
  then obtain hold where hold: "enhancedGetHold s now e n = Some hold" "h_userId hold = u"
    by (auto simp: enhancedRefreshSeatHold_def split: option.splits if_splits)
  show ?thesis
  proof (cases "expiresAt hold < now")
    case True
    then have "snd (enhancedRefreshSeatHold s now e n u d) = snd (enhancedReleaseSeat s e n)"
      using hold by (auto simp: enhancedRefreshSeatHold_def split: prod.splits sum.splits)
    then show ?thesis using econs_releaseSeat[OF assms] by simp
  next
    case False
    obtain dl where "holdKeys s (e, n) = Some (hold, dl)"
      using enhancedGetHold_stored[OF hold(1)] by blast
    from econs_hold[OF assms this] obtain seat where seat: "seatsTable s (e, n) = Some seat"
      "status seat = Held" "userId seat = Some (h_userId hold)" by blast
    have ok: "seatOK seat" using assms seat(1) by (rule econs_seatOK)
    have nores: "reservationsTable s (e, n) = None"
      using econs_reservation[OF assms, of e n] seat
      by (cases "reservationsTable s (e, n)") auto
    show ?thesis
    proof (rule econs_single_seat[OF assms, where e = e and n = n and v = seat])
      show "seatOK seat" by (rule ok)
      show "eventsTable s e \<noteq> None" using assms seat(1) by (rule econs_event)
    qed (use hold False seat nf nores in
        \<open>auto simp: enhancedRefreshSeatHold_def Let_def split: if_splits\<close>)
  qed
qed

lemma fold_seatsTable:
  "seatsTable (fold (\<lambda>i st. st\<lparr>seatsTable := (seatsTable st)((e, i) \<mapsto> f i)\<rparr>) xs s) (e', n') =
     (if e' = e \<and> n' \<in> set xs then Some (f n') else seatsTable s (e', n'))"
  "eventsTable (fold (\<lambda>i st. st\<lparr>seatsTable := (seatsTable st)((e, i) \<mapsto> f i)\<rparr>) xs s) = eventsTable s"
  "holdKeys (fold (\<lambda>i st. st\<lparr>seatsTable := (seatsTable st)((e, i) \<mapsto> f i)\<rparr>) xs s) = holdKeys s"
  "reservationsTable (fold (\<lambda>i st. st\<lparr>seatsTable := (seatsTable st)((e, i) \<mapsto> f i)\<rparr>) xs s) =
     reservationsTable s"
  by (induction xs arbitrary: s) auto

lemma econs_createEvent:
  assumes "enhancedConsistent s"
  shows "enhancedConsistent (snd (enhancedCreateEvent s now e nSeats nm descr))"
proof (cases "nSeats < 10 \<or> nSeats > 1000 \<or> eventsTable s e \<noteq> None \<or>
    (\<exists>i\<in>set [1..nSeats]. seatsTable s (e, i) \<noteq> None)")
  case True
  then have "snd (enhancedCreateEvent s now e nSeats nm descr) = s"
    by (auto simp: enhancedCreateEvent_def)
  then show ?thesis using assms by simp
next
  case False
  let ?s' = "snd (enhancedCreateEvent s now e nSeats nm descr)"
  have seats: "seatsTable ?s' (e', n') =
      (if e' = e \<and> 1 \<le> n' \<and> n' \<le> nSeats then Some (newSeat e n') else seatsTable s (e', n'))"
    for e' n'
    using False by (simp add: enhancedCreateEvent_def Let_def fold_seatsTable)
  have ev: "eventsTable ?s' = (eventsTable s)(e \<mapsto> \<lparr>idE = e, name = nm, description = descr,
      totalSeats = nSeats, createdAt = now, statusE = Active\<rparr>)"
    using False by (simp add: enhancedCreateEvent_def Let_def fold_seatsTable)
  have holds: "holdKeys ?s' = holdKeys s" and res: "reservationsTable ?s' = reservationsTable s"
    using False by (simp_all add: enhancedCreateEvent_def Let_def fold_seatsTable)
  from False have none: "eventsTable s e = None" by simp
  have noseat: "seatsTable s (e, k) = None" for k
    using econs_event[OF assms, of e k] none by (cases "seatsTable s (e, k)") auto
  show ?thesis
  proof (rule econsI)
    fix e' n' seat'
    assume a: "seatsTable ?s' (e', n') = Some seat'"
    then have d: "e' = e \<and> seat' = newSeat e n' \<or> e' \<noteq> e \<and> seatsTable s (e', n') = Some seat'"
      using noseat by (auto simp: seats split: if_splits)
    then show "seatOK seat'"
      using seatOK_newSeat econs_seatOK[OF assms, of e' n' seat'] by auto
    show "eventsTable ?s' e' \<noteq> None"
      using d econs_event[OF assms, of e' n' seat'] by (auto simp: ev)
  next
    fix e' n' h dl
    assume "holdKeys ?s' (e', n') = Some (h, dl)"
    then have "holdKeys s (e', n') = Some (h, dl)" by (simp add: holds)
    from econs_hold[OF assms this] obtain st where st: "seatsTable s (e', n') = Some st"
      "status st = Held" "userId st = Some (h_userId h)" by blast
    then have "e' \<noteq> e" using noseat by auto
    then show "\<exists>seat. seatsTable ?s' (e', n') = Some seat \<and> status seat = Held \<and>
        userId seat = Some (h_userId h)"
      using st by (simp add: seats)
  next
    fix e' n' r
    assume "reservationsTable ?s' (e', n') = Some r"
    then have "reservationsTable s (e', n') = Some r" by (simp add: res)
    from econs_reservation[OF assms this] obtain st where st: "seatsTable s (e', n') = Some st"
      "status st = Reserved" by blast
    then have "e' \<noteq> e" using noseat by auto
    then show "\<exists>seat. seatsTable ?s' (e', n') = Some seat \<and> status seat = Reserved"
      using st by (simp add: seats)
  qed
qed

lemma econs_emptyEStore: "enhancedConsistent emptyEStore"
  by (simp add: enhancedConsistent_def emptyEStore_def)

lemma econs_perform: "enhancedConsistent s \<Longrightarrow> enhancedConsistent (enhancedPerform mx s now c)"
  by (cases c)
    (simp_all add: econs_createEvent econs_holdSeat econs_reserveSeat econs_releaseSeat
      econs_refreshSeatHold)

lemma enhancedReachable_consistent: "enhancedReachable mx s \<Longrightarrow> enhancedConsistent s"
  by (induction rule: enhancedReachable.induct) (simp_all add: econs_emptyEStore econs_perform)

section \<open>The lock of EnhancedSeatService.holdSeat\<close>







section \<open>Both services: release, quota, reservation and seat fields\<close>

lemma enhancedReleaseSeat_idempotent:
  "(seatsTable s (e, n) = None \<longrightarrow> enhancedReleaseSeat s e n = (Inl SeatNotFound, s)) \<and>
   (\<forall>seat. seatsTable s (e, n) = Some seat \<and> status seat \<noteq> Held \<longrightarrow>
      enhancedReleaseSeat s e n = (Inr (), s)) \<and>
   (\<forall>err. fst (enhancedReleaseSeat s e n) = Inl err \<longrightarrow>
      err = SeatNotFound \<and> seatsTable s (e, n) = None) \<and>
   (snd (enhancedReleaseSeat s e n) \<noteq> s \<longrightarrow>
      (\<exists>seat. seatsTable s (e, n) = Some seat \<and> status seat = Held)) \<and>
   enhancedReleaseSeat (snd (enhancedReleaseSeat s e n)) e n =
     (fst (enhancedReleaseSeat s e n), snd (enhancedReleaseSeat s e n))"
proof -
  have idem: "enhancedReleaseSeat (snd (enhancedReleaseSeat s e n)) e n =
     (fst (enhancedReleaseSeat s e n), snd (enhancedReleaseSeat s e n))"
  proof (cases "seatsTable s (e, n)")
    case None
    then show ?thesis by (simp add: enhancedReleaseSeat_def)
  next
    case (Some seat)
    show ?thesis
    proof (cases "status seat = Held")
      case True
      have "seatsTable (snd (enhancedReleaseSeat s e n)) (e, n) =
          Some (seat\<lparr>status := Available, userId := None, heldAt := None\<rparr>)"
        using Some True by (simp add: enhancedReleaseSeat_def Let_def)
      moreover have "fst (enhancedReleaseSeat s e n) = Inr ()"
        using Some True by (simp add: enhancedReleaseSeat_def Let_def)
      ultimately show ?thesis by (simp add: enhancedReleaseSeat_def)
    next
      case False
      then show ?thesis using Some by (simp add: enhancedReleaseSeat_def)
    qed
  qed
  show ?thesis
    using idem by (auto simp: enhancedReleaseSeat_def Let_def split: option.splits if_splits)
qed






lemma enhancedReserveSeat_errors:
  "fst (enhancedReserveSeat s now e n u) = Inl err \<Longrightarrow>
   err \<in> {SeatNotFound, SeatNotHeld, SeatHeldByAnotherUser, SeatHoldExpired, PgConstraintViolation}"
  by (auto simp: enhancedReserveSeat_def enhancedReleaseSeat_def Let_def
      split: option.splits if_splits prod.splits sum.splits)

lemma enhanced_reserveSeat_iff:
  assumes "enhancedReachable mx t"
  shows "((\<exists>r. fst (enhancedReserveSeat t now e n u) = Inr r) \<longleftrightarrow>
           (\<exists>h. enhancedGetHold t now e n = Some h \<and> h_userId h = u \<and> \<not> expiresAt h < now)) \<and>
         (\<forall>r. fst (enhancedReserveSeat t now e n u) = Inr r \<longrightarrow>
            r = \<lparr>r_eventId = e, r_seatNumber = n, r_userId = u, r_reservedAt = now\<rparr> \<and>
            (\<exists>seat. seatsTable t (e, n) = Some seat \<and> status seat = Held \<and> userId seat = Some u \<and>
               seatsTable (snd (enhancedReserveSeat t now e n u)) (e, n) =
                 Some (seat\<lparr>status := Reserved, reservedAt := Some now\<rparr>)) \<and>
            holdKeys (snd (enhancedReserveSeat t now e n u)) (e, n) = None \<and>
            n |\<notin>| userHoldSets (snd (enhancedReserveSeat t now e n u)) (u, e) \<and>
            reservationsTable (snd (enhancedReserveSeat t now e n u)) (e, n) = Some r) \<and>
         (\<forall>err. fst (enhancedReserveSeat t now e n u) = Inl err \<longrightarrow>
            err \<in> {SeatNotFound, SeatNotHeld, SeatHeldByAnotherUser, SeatHoldExpired})"
proof -
  have c: "enhancedConsistent t" using assms by (rule enhancedReachable_consistent)
  have ok: "\<exists>seat. seatsTable t (e, n) = Some seat \<and> status seat = Held \<and> userId seat = Some u \<and>
      reservationsTable t (e, n) = None \<and> eventsTable t e \<noteq> None"
    if "enhancedGetHold t now e n = Some h" "h_userId h = u" for h
  proof -
    from enhancedGetHold_stored[OF that(1)] obtain dl where "holdKeys t (e, n) = Some (h, dl)"
      by blast
    from econs_hold[OF c this] that(2) obtain seat where seat: "seatsTable t (e, n) = Some seat"
      "status seat = Held" "userId seat = Some u" by auto
    have "reservationsTable t (e, n) = None"
      using econs_reservation[OF c, of e n] seat by (cases "reservationsTable t (e, n)") auto
    moreover have "eventsTable t e \<noteq> None" using c seat(1) by (rule econs_event)
    ultimately show ?thesis using seat by simp
  qed
  have iff: "(\<exists>r. fst (enhancedReserveSeat t now e n u) = Inr r) \<longleftrightarrow>
           (\<exists>h. enhancedGetHold t now e n = Some h \<and> h_userId h = u \<and> \<not> expiresAt h < now)"
  proof
    assume "\<exists>r. fst (enhancedReserveSeat t now e n u) = Inr r"
    then show "\<exists>h. enhancedGetHold t now e n = Some h \<and> h_userId h = u \<and> \<not> expiresAt h < now"
      by (auto simp: enhancedReserveSeat_def Let_def
          split: option.splits if_splits prod.splits sum.splits)
  next
    assume "\<exists>h. enhancedGetHold t now e n = Some h \<and> h_userId h = u \<and> \<not> expiresAt h < now"
    then obtain h where h: "enhancedGetHold t now e n = Some h" "h_userId h = u"
      "\<not> expiresAt h < now" by blast
    from ok[OF h(1,2)] obtain seat where seat: "seatsTable t (e, n) = Some seat"
      "reservationsTable t (e, n) = None" "eventsTable t e \<noteq> None" by blast
    from enhancedReserveSeat_ok[OF h seat]
    show "\<exists>r. fst (enhancedReserveSeat t now e n u) = Inr r" by simp
  qed
  have eff: "r = \<lparr>r_eventId = e, r_seatNumber = n, r_userId = u, r_reservedAt = now\<rparr> \<and>
            (\<exists>seat. seatsTable t (e, n) = Some seat \<and> status seat = Held \<and> userId seat = Some u \<and>
               seatsTable (snd (enhancedReserveSeat t now e n u)) (e, n) =
                 Some (seat\<lparr>status := Reserved, reservedAt := Some now\<rparr>)) \<and>
            holdKeys (snd (enhancedReserveSeat t now e n u)) (e, n) = None \<and>
            n |\<notin>| userHoldSets (snd (enhancedReserveSeat t now e n u)) (u, e) \<and>
            reservationsTable (snd (enhancedReserveSeat t now e n u)) (e, n) = Some r"
    if r: "fst (enhancedReserveSeat t now e n u) = Inr r" for r
  proof -
    from r iff obtain h where h: "enhancedGetHold t now e n = Some h" "h_userId h = u"
      "\<not> expiresAt h < now" by blast
    from ok[OF h(1,2)] obtain seat where seat: "seatsTable t (e, n) = Some seat"
      "status seat = Held" "userId seat = Some u"
      and more: "reservationsTable t (e, n) = None" "eventsTable t e \<noteq> None" by blast
    note eq = enhancedReserveSeat_ok[OF h seat(1) more]
    show ?thesis using r seat unfolding eq by simp
  qed
  have err: "err \<in> {SeatNotFound, SeatNotHeld, SeatHeldByAnotherUser, SeatHoldExpired}"
    if e: "fst (enhancedReserveSeat t now e n u) = Inl err" for err
  proof (cases "err = PgConstraintViolation")
    case False
    then show ?thesis using enhancedReserveSeat_errors[OF e] by simp
  next
    case True
    then obtain h where h: "enhancedGetHold t now e n = Some h" "h_userId h = u"
      "\<not> expiresAt h < now"
      using e
      by (auto simp: enhancedReserveSeat_def enhancedReleaseSeat_def Let_def
          split: option.splits if_splits prod.splits sum.splits)
    then have "\<exists>r. fst (enhancedReserveSeat t now e n u) = Inr r" using iff by blast
    then show ?thesis using e by simp
  qed
  show ?thesis using iff eff err by blast
qed


lemma enhancedReachable_freshEStore: "enhancedReachable (Some 2) freshEStore"
  unfolding freshEStore_def by (intro enhancedReachable.intros)

lemma enhancedReachable_heldEStore: "enhancedReachable (Some 2) heldEStore"
  unfolding heldEStore_def by (intro enhancedReachable.intros enhancedReachable_freshEStore)



text \<open>
  C6. In both services a release of a seat that has no record fails with "Seat not found"
  and fails in no other way; a release of a seat that is not held (available or reserved)
  returns without writing; the store changes only when the seat was held; and a second
  release right after the first returns the same answer and leaves the store as the first
  left it.
\<close>

theorem releaseSeat_idempotent:
  "((hGet s e n = None \<longrightarrow> releaseSeat s e n = (Inl SeatNotFound, s)) \<and>
    (\<forall>seat. hGet s e n = Some seat \<and> status seat \<noteq> Held \<longrightarrow> releaseSeat s e n = (Inr (), s)) \<and>
    (\<forall>err. fst (releaseSeat s e n) = Inl err \<longrightarrow> err = SeatNotFound \<and> hGet s e n = None) \<and>
    (snd (releaseSeat s e n) \<noteq> s \<longrightarrow> (\<exists>seat. hGet s e n = Some seat \<and> status seat = Held)) \<and>
    releaseSeat (snd (releaseSeat s e n)) e n = (fst (releaseSeat s e n), snd (releaseSeat s e n))) \<and>
   ((seatsTable t (e, n) = None \<longrightarrow> enhancedReleaseSeat t e n = (Inl SeatNotFound, t)) \<and>
    (\<forall>seat. seatsTable t (e, n) = Some seat \<and> status seat \<noteq> Held \<longrightarrow>
    enhancedReleaseSeat t e n = (Inr (), t)) \<and>
    (\<forall>err. fst (enhancedReleaseSeat t e n) = Inl err \<longrightarrow>
    err = SeatNotFound \<and> seatsTable t (e, n) = None) \<and>
    (snd (enhancedReleaseSeat t e n) \<noteq> t \<longrightarrow>
    (\<exists>seat. seatsTable t (e, n) = Some seat \<and> status seat = Held)) \<and>
    enhancedReleaseSeat (snd (enhancedReleaseSeat t e n)) e n =
    (fst (enhancedReleaseSeat t e n), snd (enhancedReleaseSeat t e n)))"
  using releaseSeat_idempotent_redis [of s e n] enhancedReleaseSeat_idempotent [of t e n]
  by (rule conjI)

theorem releaseSeat_idempotent_witness:
  "hGet freshStore ''e'' 3 = Some (newSeat ''e'' 3) \<and> status (newSeat ''e'' 3) \<noteq> Held \<and>
   releaseSeat freshStore ''e'' 3 = (Inr (), freshStore) \<and>
   hGet freshStore ''e'' 11 = None \<and>
   releaseSeat freshStore ''e'' 11 = (Inl SeatNotFound, freshStore) \<and>
   seatsTable reservedEStore (''e'', 3) = Some \<lparr>eventId = ''e'', seatNumber = 3,
      status = Reserved, userId = Some ''a'', heldAt = Some 1000, reservedAt = Some 2000\<rparr> \<and>
   enhancedReleaseSeat reservedEStore ''e'' 3 = (Inr (), reservedEStore)"
proof -
  let ?row = "\<lparr>eventId = ''e'', seatNumber = 3,
      status = Reserved, userId = Some ''a'', heldAt = Some 1000, reservedAt = Some 2000\<rparr>"
  have a: "hGet freshStore ''e'' 3 = Some (newSeat ''e'' 3)" by code_simp
  have b: "status (newSeat ''e'' 3) \<noteq> Held" by code_simp
  have c: "hGet freshStore ''e'' 11 = None" by code_simp
  have d: "seatsTable reservedEStore (''e'', 3) = Some ?row" by code_simp
  have d': "status ?row \<noteq> Held" by simp
  note i1 = releaseSeat_idempotent [where s = freshStore and e = "''e''" and n = 3
      and t = reservedEStore]
  note i2 = releaseSeat_idempotent [where s = freshStore and e = "''e''" and n = 11]
  have "releaseSeat freshStore ''e'' 3 = (Inr (), freshStore)" using i1 a b by blast
  moreover have "releaseSeat freshStore ''e'' 11 = (Inl SeatNotFound, freshStore)"
    using i2 c by blast
  moreover have "enhancedReleaseSeat reservedEStore ''e'' 3 = (Inr (), reservedEStore)"
    using i1 d d' by blast
  ultimately show ?thesis using a b c d by blast
qed



text \<open>
  C3. In a reachable store of either service reserveSeat succeeds exactly when the hold key
  of the seat is served, names the caller and has not expired. On success the seat becomes
  reserved with reserved-at the time of the call, the hold key is deleted, the seat leaves
  the caller's set of held seats and the reservation record is stored. Every failure is
  one of "Seat not found", "Seat is not held", "Seat is held by another user" and
  "Seat hold has expired".
\<close>

theorem reserveSeat_iff_live_own_hold:
  "(reachable mx s \<longrightarrow>
      ((\<exists>r. fst (reserveSeat s now e n u) = Inr r) \<longleftrightarrow>
      (\<exists>h. getHold s now e n = Some h \<and> h_userId h = u \<and> \<not> expiresAt h < now)) \<and>
      (\<forall>r. fst (reserveSeat s now e n u) = Inr r \<longrightarrow>
      r = \<lparr>r_eventId = e, r_seatNumber = n, r_userId = u, r_reservedAt = now\<rparr> \<and>
      (\<exists>seat. hGet s e n = Some seat \<and> status seat = Held \<and> userId seat = Some u \<and>
      hGet (snd (reserveSeat s now e n u)) e n =
      Some (seat\<lparr>status := Reserved, reservedAt := Some now\<rparr>)) \<and>
      seatHold (snd (reserveSeat s now e n u)) (e, n) = None \<and>
      n |\<notin>| userHolds (snd (reserveSeat s now e n u)) (u, e) \<and>
      seatReserved (snd (reserveSeat s now e n u)) (e, n) = Some r) \<and>
      (\<forall>err. fst (reserveSeat s now e n u) = Inl err \<longrightarrow>
      err \<in> {SeatNotFound, SeatNotHeld, SeatHeldByAnotherUser, SeatHoldExpired})) \<and>
   (enhancedReachable mx t \<longrightarrow>
      ((\<exists>r. fst (enhancedReserveSeat t now e n u) = Inr r) \<longleftrightarrow>
      (\<exists>h. enhancedGetHold t now e n = Some h \<and> h_userId h = u \<and> \<not> expiresAt h < now)) \<and>
      (\<forall>r. fst (enhancedReserveSeat t now e n u) = Inr r \<longrightarrow>
      r = \<lparr>r_eventId = e, r_seatNumber = n, r_userId = u, r_reservedAt = now\<rparr> \<and>
      (\<exists>seat. seatsTable t (e, n) = Some seat \<and> status seat = Held \<and> userId seat = Some u \<and>
      seatsTable (snd (enhancedReserveSeat t now e n u)) (e, n) =
      Some (seat\<lparr>status := Reserved, reservedAt := Some now\<rparr>)) \<and>
      holdKeys (snd (enhancedReserveSeat t now e n u)) (e, n) = None \<and>
      n |\<notin>| userHoldSets (snd (enhancedReserveSeat t now e n u)) (u, e) \<and>
      reservationsTable (snd (enhancedReserveSeat t now e n u)) (e, n) = Some r) \<and>
      (\<forall>err. fst (enhancedReserveSeat t now e n u) = Inl err \<longrightarrow>
      err \<in> {SeatNotFound, SeatNotHeld, SeatHeldByAnotherUser, SeatHoldExpired}))"
  using reserveSeat_iff_live_own_hold_redis [of mx s now e n u]
    enhanced_reserveSeat_iff [of mx t now e n u]
  by blast

theorem reserveSeat_iff_live_own_hold_witness:
  "reachable (Some 2) heldStore \<and>
   fst (reserveSeat heldStore 2000 ''e'' 3 ''a'') =
     Inr \<lparr>r_eventId = ''e'', r_seatNumber = 3, r_userId = ''a'', r_reservedAt = 2000\<rparr> \<and>
   seatHold (snd (reserveSeat heldStore 2000 ''e'' 3 ''a'')) (''e'', 3) = None \<and>
   3 |\<notin>| userHolds (snd (reserveSeat heldStore 2000 ''e'' 3 ''a'')) (''a'', ''e'') \<and>
   fst (reserveSeat heldStore 2000 ''e'' 3 ''b'') = Inl SeatHeldByAnotherUser \<and>
   enhancedReachable (Some 2) heldEStore \<and>
   fst (enhancedReserveSeat heldEStore 2000 ''e'' 3 ''a'') =
     Inr \<lparr>r_eventId = ''e'', r_seatNumber = 3, r_userId = ''a'', r_reservedAt = 2000\<rparr> \<and>
   holdKeys (snd (enhancedReserveSeat heldEStore 2000 ''e'' 3 ''a'')) (''e'', 3) = None \<and>
   3 |\<notin>| userHoldSets (snd (enhancedReserveSeat heldEStore 2000 ''e'' 3 ''a'')) (''a'', ''e'')"
proof -
  have a: "fst (reserveSeat heldStore 2000 ''e'' 3 ''a'') =
     Inr \<lparr>r_eventId = ''e'', r_seatNumber = 3, r_userId = ''a'', r_reservedAt = 2000\<rparr>"
    by code_simp
  have b: "fst (reserveSeat heldStore 2000 ''e'' 3 ''b'') = Inl SeatHeldByAnotherUser"
    by code_simp
  have c: "fst (enhancedReserveSeat heldEStore 2000 ''e'' 3 ''a'') =
     Inr \<lparr>r_eventId = ''e'', r_seatNumber = 3, r_userId = ''a'', r_reservedAt = 2000\<rparr>"
    by code_simp
  note i = reserveSeat_iff_live_own_hold [where mx = "Some 2" and s = heldStore and now = 2000
      and e = "''e''" and n = 3 and u = "''a''" and t = heldEStore]
  have d: "seatHold (snd (reserveSeat heldStore 2000 ''e'' 3 ''a'')) (''e'', 3) = None \<and>
   3 |\<notin>| userHolds (snd (reserveSeat heldStore 2000 ''e'' 3 ''a'')) (''a'', ''e'')"
    using i reachable_heldStore a by blast
  have e: "holdKeys (snd (enhancedReserveSeat heldEStore 2000 ''e'' 3 ''a'')) (''e'', 3) = None \<and>
   3 |\<notin>| userHoldSets (snd (enhancedReserveSeat heldEStore 2000 ''e'' 3 ''a'')) (''a'', ''e'')"
    using i enhancedReachable_heldEStore c by blast
  show ?thesis using a b c d e reachable_heldStore enhancedReachable_heldEStore by simp
qed




end
